theory Spec2Isabelle
  imports Main "HOL-Library.Char_ord" "HOL-Library.List_Lexorder" "HOL-Library.AList"
begin

section \<open>Strings as the program sees them\<close>

text \<open>
  A JavaScript string is a sequence of UTF-16 code units. The model uses \<^typ>\<open>string\<close>,
  a list of 8-bit characters, so it covers the strings whose code units are below 256
  (Latin-1). On these, the white space of \<^verbatim>\<open>\s\<close> and of \<^verbatim>\<open>trim()\<close> is tab, line feed,
  vertical tab, form feed, carriage return, space and no-break space; \<^verbatim>\<open>\w\<close> is an ASCII
  letter, a digit or the underscore.
\<close>

definition is_space :: "char \<Rightarrow> bool" where
  "is_space c = (of_char c \<in> {9, 10, 11, 12, 13, 32, 160 :: nat})"

definition is_word :: "char \<Rightarrow> bool" where
  "is_word c =
     ((CHR ''a'' \<le> c \<and> c \<le> CHR ''z'') \<or> (CHR ''A'' \<le> c \<and> c \<le> CHR ''Z'') \<or>
      (CHR ''0'' \<le> c \<and> c \<le> CHR ''9'') \<or> c = CHR ''_'')"

text \<open>\<^verbatim>\<open>s.trim()\<close>\<close>

definition trim :: "string \<Rightarrow> string" where
  "trim s = rev (dropWhile is_space (rev (dropWhile is_space s)))"

text \<open>
  \<^verbatim>\<open>c.toUpperCase()\<close> and \<^verbatim>\<open>c.toLowerCase()\<close> on one code unit. Upper-casing is used by the
  program on \<^verbatim>\<open>\w\<close> characters and in a comparison with \<^verbatim>\<open>'README'\<close> only, where the
  ASCII letters decide; lower-casing maps the Latin-1 capitals as well.
\<close>

definition to_upper :: "char \<Rightarrow> char" where
  "to_upper c =
     (if CHR ''a'' \<le> c \<and> c \<le> CHR ''z'' then char_of (of_char c - (32::nat)) else c)"

definition to_lower :: "char \<Rightarrow> char" where
  "to_lower c =
     (let n = (of_char c :: nat) in
      if (65 \<le> n \<and> n \<le> 90) \<or> (192 \<le> n \<and> n \<le> 222 \<and> n \<noteq> 215)
      then char_of (n + 32) else c)"

definition toUpperCase :: "string \<Rightarrow> string" where
  "toUpperCase s = map to_upper s"

definition toLowerCase :: "string \<Rightarrow> string" where
  "toLowerCase s = map to_lower s"

text \<open>\<^verbatim>\<open>s.startsWith(p)\<close> and \<^verbatim>\<open>s.endsWith(p)\<close>\<close>

definition startsWith :: "string \<Rightarrow> string \<Rightarrow> bool" where
  "startsWith s p = (take (length p) s = p)"

definition endsWith :: "string \<Rightarrow> string \<Rightarrow> bool" where
  "endsWith s p = (length p \<le> length s \<and> drop (length s - length p) s = p)"

text \<open>\<^verbatim>\<open>s.split(d)\<close> for a one-character separator: never the empty list.\<close>

fun split_on :: "char \<Rightarrow> string \<Rightarrow> string list" where
  "split_on d [] = [[]]"
| "split_on d (c # cs) =
     (if c = d then [] # split_on d cs
      else (case split_on d cs of [] \<Rightarrow> [[c]] | w # ws \<Rightarrow> (c # w) # ws))"

text \<open>\<^verbatim>\<open>xs.slice(a, b)\<close> for \<open>0 \<le> a\<close> and \<open>0 \<le> b\<close>: the end is clamped to the length.\<close>

definition slice :: "'a list \<Rightarrow> nat \<Rightarrow> nat \<Rightarrow> 'a list" where
  "slice xs a b = drop a (take b xs)"

section \<open>Block chunking\<close>

definition NOTION_BLOCK_CHUNK_SIZE :: nat where
  "NOTION_BLOCK_CHUNK_SIZE = 100"

text \<open>
  The loop of \<^verbatim>\<open>chunkBlocks\<close>: \<^verbatim>\<open>for (let i = 0; i < blocks.length; i += size)\<close>. With
  \<open>size = 0\<close> the source never leaves the loop, so the loop is a partial function and
  \<open>None\<close> stands for not returning.
\<close>

partial_function (option) chunkBlocks_loop ::
  "'a list \<Rightarrow> nat \<Rightarrow> nat \<Rightarrow> 'a list list \<Rightarrow> 'a list list option" where
  "chunkBlocks_loop blocks sz i chunks =
     (if i < length blocks
      then chunkBlocks_loop blocks sz (i + sz) (chunks @ [slice blocks i (i + sz)])
      else Some chunks)"

declare chunkBlocks_loop.simps [code]

definition chunkBlocks :: "'a list \<Rightarrow> nat \<Rightarrow> 'a list list option" where
  "chunkBlocks blocks sz = chunkBlocks_loop blocks sz 0 []"

section \<open>Path classifier\<close>

record ParsedRelPath =
  folderName :: "string option"
  folderTitle :: "string option"
  docTitle :: string

definition normalizeTitle :: "string \<Rightarrow> string" where
  "normalizeTitle s = trim s"

text \<open>
  \<^verbatim>\<open>relativePath.replace(/\.md$/i, '')\<close>: the pattern is anchored at the end of the input,
  so the only possible match is the last three characters.
\<close>

definition strip_md :: "string \<Rightarrow> string" where
  "strip_md s =
     (if endsWith (toLowerCase s) ''.md'' then take (length s - 3) s else s)"

text \<open>\<^verbatim>\<open>s.replace(/[-_]/g, ' ')\<close>\<close>

definition dashes_to_spaces :: "string \<Rightarrow> string" where
  "dashes_to_spaces s = map (\<lambda>c. if c = CHR ''-'' \<or> c = CHR ''_'' then CHR '' '' else c) s"

text \<open>
  \<^verbatim>\<open>s.replace(/\b\w/g, (c) => c.toUpperCase())\<close>: a scan from the left. The pattern matches
  one \<^verbatim>\<open>\w\<close> character where the character before it (none at the start) is not a
  \<^verbatim>\<open>\w\<close> character; the flag \<open>prev\<close> says that the character before was one.
\<close>

fun capitalize_words :: "bool \<Rightarrow> string \<Rightarrow> string" where
  "capitalize_words prev [] = []"
| "capitalize_words prev (c # cs) =
     (if is_word c \<and> \<not> prev then to_upper c else c) # capitalize_words (is_word c) cs"

definition title_case :: "string \<Rightarrow> string" where
  "title_case s = capitalize_words False (dashes_to_spaces s)"

text \<open>
  \<^verbatim>\<open>parts[parts.length - 2]\<close> is \<^verbatim>\<open>undefined\<close> when there is one part only, and the
  test \<^verbatim>\<open>folder ? ... : 'README'\<close> takes the empty string as absent too.
\<close>

definition pathToDisplayTitle :: "string \<Rightarrow> string" where
  "pathToDisplayTitle relativePath =
     (let withoutExt = strip_md relativePath;
          parts = split_on CHR ''/'' withoutExt;
          lst = last parts
      in if toUpperCase lst = ''README''
         then (let folder = (if 2 \<le> length parts then Some (parts ! (length parts - 2)) else None)
               in case folder of
                    None \<Rightarrow> ''README''
                  | Some f \<Rightarrow> if f \<noteq> [] then title_case f else ''README'')
         else title_case lst)"

definition parseRelPath :: "string \<Rightarrow> ParsedRelPath" where
  "parseRelPath relativePath =
     (let docTitle' = pathToDisplayTitle relativePath;
          parts = split_on CHR ''/'' (strip_md relativePath)
      in if length parts \<le> 1
         then \<lparr>folderName = None, folderTitle = None, docTitle = normalizeTitle docTitle'\<rparr>
         else (let folderName' = hd parts;
                   folderTitle' = title_case folderName'
               in \<lparr>folderName = Some folderName',
                   folderTitle = Some (normalizeTitle folderTitle'),
                   docTitle = normalizeTitle docTitle'\<rparr>))"

text \<open>
  A \<^verbatim>\<open>Set\<close> of strings iterates in insertion order: a list without repetitions, a new
  element added at the end.
\<close>

definition set_add :: "'a \<Rightarrow> 'a list \<Rightarrow> 'a list" where
  "set_add x xs = (if x \<in> set xs then xs else xs @ [x])"

definition new_Set :: "'a list \<Rightarrow> 'a list" where
  "new_Set xs = foldl (\<lambda>acc x. set_add x acc) [] xs"

definition getUniqueFolderTitles :: "string list \<Rightarrow> string list" where
  "getUniqueFolderTitles relPaths =
     foldl (\<lambda>acc relPath.
              case folderTitle (parseRelPath relPath) of
                None \<Rightarrow> acc
              | Some t \<Rightarrow> set_add t acc) [] relPaths"

section \<open>Diff collaborator\<close>

text \<open>
  What a failing call throws, as far as the program reads it: the name of the error,
  \<^verbatim>\<open>err.status\<close>, \<^verbatim>\<open>err.code\<close> and \<^verbatim>\<open>err.body.code\<close>, each of the last three
  possibly absent. \<open>TypeError\<close> is the error of reading a property of \<^verbatim>\<open>null\<close>,
  \<open>ENOENT\<close> the error of the file system for a path that does not exist.
\<close>

datatype js_error =
  Thrown (err_name: string) (err_status: "int option") (err_code: "string option")
    (err_body_code: "string option")

definition TypeError :: js_error where
  "TypeError = Thrown ''TypeError'' None None None"

definition ENOENT :: js_error where
  "ENOENT = Thrown ''Error'' None (Some ''ENOENT'') None"

text \<open>\<^verbatim>\<open>out.split(/\r?\n/)\<close>: a carriage return is part of the separator only before a line feed.\<close>

fun split_lines :: "string \<Rightarrow> string list" where
  "split_lines [] = [[]]"
| "split_lines (c # cs) =
     (if c = CHR 0x0A then [] # split_lines cs
      else if c = CHR 0x0D \<and> cs \<noteq> [] \<and> hd cs = CHR 0x0A then [] # split_lines (tl cs)
      else (case split_lines cs of [] \<Rightarrow> [[c]] | w # ws \<Rightarrow> (c # w) # ws))"

text \<open>\<^verbatim>\<open>line.replace(/\\/g, '/')\<close>\<close>

definition backslashes_to_slashes :: "string \<Rightarrow> string" where
  "backslashes_to_slashes s = map (\<lambda>c. if c = CHR 0x5C then CHR ''/'' else c) s"

text \<open>
  \<^verbatim>\<open>execSync\<close> is a parameter: given the command line and the working directory it
  returns the output of the command or the error it throws.
\<close>

definition getChangedMdPaths ::
  "(string \<Rightarrow> string \<Rightarrow> js_error + string) \<Rightarrow> string \<Rightarrow> string \<Rightarrow> string \<Rightarrow> string \<Rightarrow>
   js_error + string list option" where
  "getChangedMdPaths execSync repoRoot docsPrefix baseRef headRef =
     (let prefix = (if endsWith docsPrefix ''/'' then docsPrefix else docsPrefix @ ''/'')
      in case execSync (''git diff --name-only '' @ baseRef @ '' '' @ headRef) repoRoot of
           Inr out \<Rightarrow>
             (let lines = filter (\<lambda>s. s \<noteq> []) (map trim (split_lines out));
                  relPaths =
                    foldl (\<lambda>acc line.
                             let normalized = backslashes_to_slashes line
                             in if \<not> endsWith (toLowerCase normalized) ''.md'' then acc
                                else if normalized = prefix \<or> normalized = butlast prefix then acc
                                else if startsWith normalized prefix
                                then acc @ [drop (length prefix) normalized]
                                else acc) [] lines
              in Inr (Some (new_Set relPaths)))
         | Inl err \<Rightarrow>
             (if err_status err = Some 128 then Inr None else Inl err))"

section \<open>Identity codec: the frontmatter\<close>

text \<open>
  A plain object is the list of its own properties in the order of their creation, the
  keys without repetition. \<^verbatim>\<open>Object.entries\<close>, \<^verbatim>\<open>Object.keys\<close> and the spread
  \<^verbatim>\<open>{...obj}\<close> enumerate the keys that are array indices first (canonical decimal numbers
  below \<open>2^32 - 1\<close>, ascending), then the other keys in creation order. Writing
  \<^verbatim>\<open>obj[k] = v\<close> replaces the value of an existing key in place and adds a new key at
  the end (\<^const>\<open>AList.update\<close>).
\<close>

definition is_digit :: "char \<Rightarrow> bool" where
  "is_digit c = (CHR ''0'' \<le> c \<and> c \<le> CHR ''9'')"

definition dec_value :: "string \<Rightarrow> nat" where
  "dec_value s = foldl (\<lambda>n c. 10 * n + (of_char c - 48)) 0 s"

definition is_array_index :: "string \<Rightarrow> bool" where
  "is_array_index k =
     (k \<noteq> [] \<and> list_all is_digit k \<and> (hd k \<noteq> CHR ''0'' \<or> length k = 1) \<and>
      dec_value k < 4294967295)"

definition own_entries :: "(string \<times> 'v) list \<Rightarrow> (string \<times> 'v) list" where
  "own_entries obj =
     sort_key (\<lambda>kv. dec_value (fst kv)) (filter (\<lambda>kv. is_array_index (fst kv)) obj) @
     filter (\<lambda>kv. \<not> is_array_index (fst kv)) obj"

definition NOTION_PAGE_ID_KEY :: string where
  "NOTION_PAGE_ID_KEY = ''notion_page_id''"

definition LF :: char where "LF = CHR 0x0A"
definition CR :: char where "CR = CHR 0x0D"
definition BACKSLASH :: char where "BACKSLASH = CHR 0x5C"
definition DQUOTE :: char where "DQUOTE = CHR 0x22"
definition SQUOTE :: char where "SQUOTE = CHR 0x27"

text \<open>
  \<^verbatim>\<open>FRONTMATTER_RE = /^\s*---\r?\n([\s\S]*?)\r?\n---\r?\n?([\s\S]*)$/\<close>, read as the
  backtracking matcher runs it. \<^verbatim>\<open>\s*\<close> takes all leading white space (a shorter run
  would leave white space before \<^verbatim>\<open>---\<close>). The lazy group grows one character at a time
  until \<^verbatim>\<open>\r?\n---\<close> follows: \<open>find_close\<close>. After the closing marker \<^verbatim>\<open>\r?\<close> and
  \<^verbatim>\<open>\n?\<close> each take their character when it is there, and the last group takes the rest.
\<close>

fun find_close :: "string \<Rightarrow> (string \<times> string) option" where
  "find_close s =
     (if startsWith s [CR, LF, CHR ''-'', CHR ''-'', CHR ''-''] then Some ([], drop 5 s)
      else if startsWith s [LF, CHR ''-'', CHR ''-'', CHR ''-''] then Some ([], drop 4 s)
      else (case s of
              [] \<Rightarrow> None
            | c # cs \<Rightarrow> (case find_close cs of
                           None \<Rightarrow> None
                         | Some (block, rest) \<Rightarrow> Some (c # block, rest))))"

definition match_FRONTMATTER_RE :: "string \<Rightarrow> (string \<times> string) option" where
  "match_FRONTMATTER_RE str =
     (let s1 = dropWhile is_space str
      in if \<not> startsWith s1 ''---'' then None
         else (let s2 = drop 3 s1;
                   s3 = (if startsWith s2 [CR, LF] then Some (drop 2 s2)
                         else if startsWith s2 [LF] then Some (drop 1 s2)
                         else None)
               in case s3 of
                    None \<Rightarrow> None
                  | Some s4 \<Rightarrow>
                      (case find_close s4 of
                         None \<Rightarrow> None
                       | Some (frontBlock, r) \<Rightarrow>
                           (let r1 = (if startsWith r [CR] then drop 1 r else r);
                                r2 = (if startsWith r1 [LF] then drop 1 r1 else r1)
                            in Some (frontBlock, r2)))))"

text \<open>
  \<^verbatim>\<open>line.match(/^(\w+):\s*(.*)$/)\<close>: the key is the longest run of \<^verbatim>\<open>\w\<close> characters, not
  empty, and a colon follows it. \<^verbatim>\<open>\s*\<close> takes the white space after the colon. The dot
  matches no line terminator and \<^verbatim>\<open>$\<close> is the end of the line, so a line with a
  carriage return or line feed after that white space does not match at all.
\<close>

definition match_key_value :: "string \<Rightarrow> (string \<times> string) option" where
  "match_key_value line =
     (let key = takeWhile is_word line;
          r = dropWhile is_word line
      in if key = [] then None
         else (case r of
                 [] \<Rightarrow> None
               | c # r1 \<Rightarrow>
                   if c \<noteq> CHR '':'' then None
                   else (let rest = dropWhile is_space r1
                         in if list_ex (\<lambda>x. x = CR \<or> x = LF) rest then None
                            else Some (key, rest))))"

text \<open>\<^verbatim>\<open>s.replace(/\\q/g, q)\<close> for a quote character \<open>q\<close>: backslash and quote become the quote.\<close>

fun unescape_quote :: "char \<Rightarrow> string \<Rightarrow> string" where
  "unescape_quote q (a # b # cs) =
     (if a = BACKSLASH \<and> b = q then q # unescape_quote q cs
      else a # unescape_quote q (b # cs))"
| "unescape_quote q cs = cs"

text \<open>
  One line of the header block. \<^verbatim>\<open>value.slice(1, -1)\<close> drops the first and the last
  character (of a one-character string nothing is left). Assigning a string to the key
  \<^verbatim>\<open>__proto__\<close> of a plain object creates no property.
\<close>

definition parse_line :: "(string \<times> string) list \<Rightarrow> string \<Rightarrow> (string \<times> string) list" where
  "parse_line dat line =
     (case match_key_value line of
        None \<Rightarrow> dat
      | Some (key, rest) \<Rightarrow>
          (let v = trim rest;
               v' = (if (startsWith v [DQUOTE] \<and> endsWith v [DQUOTE]) \<or>
                        (startsWith v [SQUOTE] \<and> endsWith v [SQUOTE])
                     then unescape_quote DQUOTE (unescape_quote SQUOTE (butlast (drop 1 v)))
                     else v)
           in if key = ''__proto__'' then dat else AList.update key v' dat))"

definition parseFrontmatterBlock :: "string \<Rightarrow> (string \<times> string) list \<times> string list" where
  "parseFrontmatterBlock block =
     (let lines = split_lines block
      in (foldl parse_line [] lines, lines))"

record ParsedFrontmatter =
  body :: string
  notionPageId :: "string option"
  data :: "(string \<times> string) list"

definition parseMdWithNotionId :: "string \<Rightarrow> ParsedFrontmatter" where
  "parseMdWithNotionId rawContent =
     (case match_FRONTMATTER_RE rawContent of
        None \<Rightarrow> \<lparr>body = rawContent, notionPageId = None, data = []\<rparr>
      | Some (frontBlock, body') \<Rightarrow>
          (let dat = fst (parseFrontmatterBlock frontBlock);
               notionPageId' =
                 (case map_of dat NOTION_PAGE_ID_KEY of
                    None \<Rightarrow> None
                  | Some i \<Rightarrow> if 0 < length (trim i) then Some (trim i) else None)
           in \<lparr>body = body', notionPageId = notionPageId', data = own_entries dat\<rparr>))"

text \<open>\<^verbatim>\<open>s.replace(/\\/g, '\\\\').replace(/"/g, '\\"')\<close>\<close>

definition escape_backslash_dquote :: "string \<Rightarrow> string" where
  "escape_backslash_dquote s =
     concat (map (\<lambda>c. if c = DQUOTE then [BACKSLASH, DQUOTE] else [c])
        (concat (map (\<lambda>c. if c = BACKSLASH then [BACKSLASH, BACKSLASH] else [c]) s)))"

definition escapeYamlValue :: "string \<Rightarrow> string" where
  "escapeYamlValue s =
     (if list_ex (\<lambda>c. c = LF \<or> c = DQUOTE \<or> c = BACKSLASH \<or> c = CHR '':'') s
      then [DQUOTE] @ escape_backslash_dquote s @ [DQUOTE]
      else s)"

text \<open>\<^verbatim>\<open>lines.join(sep)\<close>\<close>

fun join :: "string \<Rightarrow> string list \<Rightarrow> string" where
  "join sep [] = []"
| "join sep [x] = x"
| "join sep (x # y # ys) = x @ sep @ join sep (y # ys)"

definition stringifyMdWithNotionId ::
  "string \<Rightarrow> (string \<times> string) list \<Rightarrow> string \<Rightarrow> string" where
  "stringifyMdWithNotionId body' existingData notionPageId' =
     (let dat = AList.update NOTION_PAGE_ID_KEY notionPageId' (own_entries existingData);
          pairs = filter (\<lambda>kv. snd kv \<noteq> []) (own_entries dat);
          frontLines = map (\<lambda>kv. fst kv @ '': '' @ escapeYamlValue (snd kv)) pairs;
          front = (if frontLines \<noteq> []
                   then ''---'' @ [LF] @ join [LF] frontLines @ [LF] @ ''---'' @ [LF]
                   else [])
      in front @ body')"

section \<open>Content adapter\<close>

text \<open>
  The blocks are plain data without static structure: a value is \<^verbatim>\<open>null\<close>, a boolean, a
  number (the integral ones are modelled), a string, an array or a plain object.
  \<^verbatim>\<open>undefined\<close> is the absence of a value: \<open>None\<close> where a property is read.
\<close>

datatype json =
    JNull
  | JBool bool
  | JNum int
  | JStr string
  | JArr "json list"
  | JObj "(string \<times> json) list"

text \<open>The truth value of \<^verbatim>\<open>!!v\<close>.\<close>

fun truthy :: "json option \<Rightarrow> bool" where
  "truthy None = False"
| "truthy (Some JNull) = False"
| "truthy (Some (JBool b)) = b"
| "truthy (Some (JNum n)) = (n \<noteq> 0)"
| "truthy (Some (JStr s)) = (s \<noteq> [])"
| "truthy (Some (JArr xs)) = True"
| "truthy (Some (JObj fs)) = True"

text \<open>
  \<^verbatim>\<open>v.k\<close> for a value that is not \<^verbatim>\<open>null\<close> and one of the keys the adapter reads
  (\<^verbatim>\<open>type\<close>, \<^verbatim>\<open>text\<close>, \<^verbatim>\<open>content\<close>, \<^verbatim>\<open>link\<close>, \<^verbatim>\<open>url\<close>, \<^verbatim>\<open>rich_text\<close>,
  \<^verbatim>\<open>children\<close>): an object gives its own property; a boolean, a number and an array have
  no such property. A string has none either, but for the method \<^verbatim>\<open>link\<close> of its
  prototype, of which the adapter reads \<^verbatim>\<open>url\<close> only, and that is \<^verbatim>\<open>undefined\<close>.
\<close>

fun get_prop :: "json \<Rightarrow> string \<Rightarrow> json option" where
  "get_prop (JObj fs) k = map_of fs k"
| "get_prop v k = None"

text \<open>The decimal numeral of an array index.\<close>

fun digits_of :: "nat \<Rightarrow> nat \<Rightarrow> string" where
  "digits_of 0 n = []"
| "digits_of (Suc fuel) n =
     (if n < 10 then [char_of (48 + n)]
      else digits_of fuel (n div 10) @ [char_of (48 + n mod 10)])"

definition index_key :: "nat \<Rightarrow> string" where
  "index_key n = digits_of (Suc n) n"

text \<open>
  \<^verbatim>\<open>{...v}\<close>: the own enumerable properties of \<open>v\<close>. An array has its indices, a string
  its characters by index, the other values have none.
\<close>

fun spread :: "json \<Rightarrow> (string \<times> json) list" where
  "spread (JObj fs) = own_entries fs"
| "spread (JArr xs) = zip (map index_key [0..<length xs]) xs"
| "spread (JStr s) = zip (map index_key [0..<length s]) (map (\<lambda>c. JStr [c]) s)"
| "spread v = []"

text \<open>A paragraph block with one plain text item: \<^verbatim>\<open>FALLBACK_BLOCK\<close> has this shape.\<close>

definition paragraph_block :: "string \<Rightarrow> json" where
  "paragraph_block content =
     JObj [(''type'', JStr ''paragraph''),
           (''paragraph'',
            JObj [(''rich_text'',
                   JArr [JObj [(''type'', JStr ''text''),
                               (''text'', JObj [(''content'', JStr content)])]])])]"

definition FALLBACK_BLOCK :: json where
  "FALLBACK_BLOCK = paragraph_block ''(No content)''"

definition isValidNotionUrl :: "json option \<Rightarrow> bool" where
  "isValidNotionUrl url =
     (case url of
        Some (JStr u) \<Rightarrow> (let t = trim u in startsWith t ''http://'' \<or> startsWith t ''https://'')
      | _ \<Rightarrow> False)"

text \<open>
  The callback of \<^verbatim>\<open>richText.map\<close>. Reading \<^verbatim>\<open>item.type\<close> of \<^verbatim>\<open>null\<close> throws.
  \<^verbatim>\<open>content ?? ''\<close> replaces an absent or \<^verbatim>\<open>null\<close> content; \<^verbatim>\<open>link?.url\<close> is
  \<^verbatim>\<open>undefined\<close> for an absent or \<^verbatim>\<open>null\<close> link.
\<close>

definition sanitize_item :: "json \<Rightarrow> js_error + json" where
  "sanitize_item item =
     (if item = JNull then Inl TypeError
      else if get_prop item ''type'' \<noteq> Some (JStr ''text'') \<or> \<not> truthy (get_prop item ''text'')
      then Inr item
      else (case get_prop item ''text'' of
              None \<Rightarrow> Inr item
            | Some text \<Rightarrow>
                (let content = get_prop text ''content'';
                     link = get_prop text ''link'';
                     content' = (case content of None \<Rightarrow> JStr [] | Some JNull \<Rightarrow> JStr [] | Some c \<Rightarrow> c);
                     url = (case link of None \<Rightarrow> None | Some l \<Rightarrow> get_prop l ''url'')
                 in Inr (JObj [(''type'', JStr ''text''),
                               (''text'',
                                JObj ((''content'', content') #
                                      (case url of
                                         None \<Rightarrow> []
                                       | Some u \<Rightarrow>
                                           if truthy url \<and> isValidNotionUrl url
                                           then [(''link'', JObj [(''url'', u)])]
                                           else [])))]))))"

fun sanitizeRichText :: "json list \<Rightarrow> js_error + json list" where
  "sanitizeRichText [] = Inr []"
| "sanitizeRichText (item # items) =
     (case sanitize_item item of
        Inl e \<Rightarrow> Inl e
      | Inr out \<Rightarrow> (case sanitizeRichText items of Inl e \<Rightarrow> Inl e | Inr outs \<Rightarrow> Inr (out # outs)))"

text \<open>The number of arrays and objects in a value: what the recursion below descends on.\<close>

fun weight :: "json \<Rightarrow> nat" where
  "weight (JArr xs) = Suc (sum_list (map weight xs))"
| "weight (JObj fs) = Suc (sum_list (map (\<lambda>kv. weight (snd kv)) fs))"
| "weight v = 0"

lemma weight_map_of:
  "map_of fs k = Some v \<Longrightarrow> weight v \<le> sum_list (map (\<lambda>kv. weight (snd kv)) fs)"
  by (induction fs) (auto split: if_splits)

lemma weight_insort:
  "sum_list (map (\<lambda>kv. weight (snd kv)) (insort_key f x xs)) =
   weight (snd x) + sum_list (map (\<lambda>kv. weight (snd kv)) xs)"
  by (induction xs) auto

lemma weight_sort:
  "sum_list (map (\<lambda>kv. weight (snd kv)) (sort_key f xs)) = sum_list (map (\<lambda>kv. weight (snd kv)) xs)"
  by (induction xs) (auto simp: weight_insort)

lemma weight_partition:
  "sum_list (map (\<lambda>kv. weight (snd kv)) (filter P xs)) +
   sum_list (map (\<lambda>kv. weight (snd kv)) (filter (\<lambda>x. \<not> P x) xs)) =
   sum_list (map (\<lambda>kv. weight (snd kv)) xs)"
  by (induction xs) auto

lemma weight_own_entries:
  "sum_list (map (\<lambda>kv. weight (snd kv)) (own_entries fs)) = sum_list (map (\<lambda>kv. weight (snd kv)) fs)"
  unfolding own_entries_def
  using weight_partition [of "\<lambda>kv. is_array_index (fst kv)" fs]
  by (simp add: weight_sort)

lemma weight_zip:
  "sum_list (map (\<lambda>kv. weight (snd kv)) (zip ks xs)) \<le> sum_list (map weight xs)"
proof (induction xs arbitrary: ks)
  case Nil
  then show ?case by simp
next
  case (Cons x xs)
  then show ?case by (cases ks) (auto simp: le_SucI trans_le_add2)
qed

lemma weight_spread: "sum_list (map (\<lambda>kv. weight (snd kv)) (spread v)) \<le> weight v"
proof (cases v)
  case (JStr s)
  have h: "sum_list (map weight (map (\<lambda>c. JStr [c]) s)) = 0"
    by (induction s) auto
  have "sum_list (map (\<lambda>kv. weight (snd kv)) (spread (JStr s))) \<le>
        sum_list (map weight (map (\<lambda>c. JStr [c]) s))"
    using weight_zip [of "map index_key [0..<length s]" "map (\<lambda>c. JStr [c]) s"]
    by (simp only: spread.simps)
  then have z: "sum_list (map (\<lambda>kv. weight (snd kv)) (spread (JStr s))) \<le> 0"
    by (simp only: h)
  have w0: "weight (JStr s) = 0" by simp
  show ?thesis unfolding JStr w0 by (rule z)
next
  case (JArr xs)
  then show ?thesis using weight_zip [of "map index_key [0..<length xs]" xs] by simp
next
  case (JObj fs)
  then show ?thesis by (simp add: weight_own_entries)
qed simp_all

text \<open>
  \<^verbatim>\<open>sanitizeBlocks\<close>. The inner loop runs over the keys of the copy \<open>b\<close> of the block and
  in the round of a key reads and writes the property of that key only, so it is a map
  over the properties (\<open>sanitize_props\<close>); \<open>sanitize_value\<close> is the body of the loop for
  one key and its value. A value that is not an object, and an array, which has neither
  \<^verbatim>\<open>rich_text\<close> nor \<^verbatim>\<open>children\<close>, stays as it is.
\<close>

function sanitizeBlocks :: "json list \<Rightarrow> js_error + json list"
  and sanitize_props :: "(string \<times> json) list \<Rightarrow> js_error + (string \<times> json) list"
  and sanitize_value :: "string \<Rightarrow> json \<Rightarrow> js_error + json" where
  "sanitizeBlocks [] = Inr []"
| "sanitizeBlocks (block # blocks) =
     (case sanitize_props (spread block) of
        Inl e \<Rightarrow> Inl e
      | Inr b \<Rightarrow> (case sanitizeBlocks blocks of Inl e \<Rightarrow> Inl e | Inr out \<Rightarrow> Inr (JObj b # out)))"
| "sanitize_props [] = Inr []"
| "sanitize_props (kv # kvs) =
     (case sanitize_value (fst kv) (snd kv) of
        Inl e \<Rightarrow> Inl e
      | Inr v' \<Rightarrow>
          (case sanitize_props kvs of Inl e \<Rightarrow> Inl e | Inr out \<Rightarrow> Inr ((fst kv, v') # out)))"
| "sanitize_value key v =
     (if key = ''type'' then Inr v
      else (case v of
              JObj prop \<Rightarrow>
                (case (case map_of prop ''rich_text'' of
                         Some (JArr rich_text) \<Rightarrow>
                           (case sanitizeRichText rich_text of
                              Inl e \<Rightarrow> Inl e
                            | Inr rt \<Rightarrow>
                                Inr (AList.update ''rich_text'' (JArr rt) (own_entries prop)))
                       | _ \<Rightarrow> Inr prop) of
                   Inl e \<Rightarrow> Inl e
                 | Inr prop1 \<Rightarrow>
                     (case map_of prop ''children'' of
                        Some (JArr children) \<Rightarrow>
                          (case sanitizeBlocks children of
                             Inl e \<Rightarrow> Inl e
                           | Inr ch \<Rightarrow>
                               Inr (JObj (AList.update ''children'' (JArr ch)
                                            (own_entries prop1))))
                      | _ \<Rightarrow> Inr (JObj prop1)))
            | _ \<Rightarrow> Inr v))"
  by pat_completeness auto
termination
  apply (relation "inv_image (less_than <*lex*> less_than <*lex*> less_than)
    (\<lambda>x. case x of
            Inl blocks \<Rightarrow> (sum_list (map weight blocks), 2::nat, length blocks)
          | Inr (Inl kvs) \<Rightarrow> (sum_list (map (\<lambda>kv. weight (snd kv)) kvs), 1, length kvs)
          | Inr (Inr kv) \<Rightarrow> (weight (snd kv), 0, 0))")
  subgoal by (intro wf_inv_image wf_lex_prod wf_less_than)
  subgoal for block blocks using weight_spread [of block] by auto
  subgoal by auto
  subgoal by (auto simp del: sum_list_eq_0_iff)
  subgoal by (auto simp del: sum_list_eq_0_iff)
  subgoal by (fastforce dest: weight_map_of)
  done

definition ensureBlocksArray :: "json \<Rightarrow> json list" where
  "ensureBlocksArray blocks =
     (case blocks of
        JArr bs \<Rightarrow> if bs = [] then [FALLBACK_BLOCK] else bs
      | _ \<Rightarrow> [FALLBACK_BLOCK])"

text \<open>
  \<^verbatim>\<open>markdownToBlocks\<close> of the library is a parameter: given the content it returns a value
  or throws.
\<close>

definition convertMarkdownToNotionBlocks ::
  "(string \<Rightarrow> js_error + json) \<Rightarrow> string \<Rightarrow> js_error + json list" where
  "convertMarkdownToNotionBlocks markdownToBlocks content =
     (let blocks =
        (case markdownToBlocks content of
           Inr v \<Rightarrow> v
         | Inl e \<Rightarrow>
             JArr [paragraph_block (if slice content 0 2000 \<noteq> []
                                    then slice content 0 2000
                                    else ''(empty)'')])
      in sanitizeBlocks (ensureBlocksArray blocks))"


section \<open>Remote capability client\<close>

text \<open>
  The remote store is a parameter: a record of the five operations of the client the
  program calls, each a function of the state \<open>'w\<close> of the store that returns a result
  or the error it throws, and the next state. Of a listed child block the program
  reads \<^verbatim>\<open>id\<close>, \<^verbatim>\<open>type\<close> and \<^verbatim>\<open>child_page.title\<close>, the last \<open>None\<close> when it is not an
  array, else the \<^verbatim>\<open>plain_text\<close> of each segment, where present.
\<close>

record list_block =
  block_id :: string
  block_type :: string
  child_page_title :: "string option list option"

record 'w NotionClient =
  pages_retrieve :: "string \<Rightarrow> 'w \<Rightarrow> (js_error + json) \<times> 'w"
  pages_create :: "string \<Rightarrow> string \<Rightarrow> json list option \<Rightarrow> 'w \<Rightarrow> (js_error + string) \<times> 'w"
  pages_update :: "string \<Rightarrow> 'w \<Rightarrow> (js_error + unit) \<times> 'w"
  blocks_children_append :: "string \<Rightarrow> json list \<Rightarrow> 'w \<Rightarrow> (js_error + unit) \<times> 'w"
  blocks_children_list ::
    "string \<Rightarrow> string option \<Rightarrow> 'w \<Rightarrow> (js_error + list_block list \<times> string option) \<times> 'w"

text \<open>
  The calls sent to the store, in the order they are sent: \<^verbatim>\<open>pages.retrieve\<close> of a page,
  \<^verbatim>\<open>pages.create\<close> under a parent with a title and the children given (none when the
  key is absent or \<^verbatim>\<open>undefined\<close>), \<^verbatim>\<open>pages.update\<close> with \<^verbatim>\<open>in_trash: true\<close>,
  \<^verbatim>\<open>blocks.children.append\<close> and \<^verbatim>\<open>blocks.children.list\<close> from a cursor.
\<close>

datatype api_call =
    Pages_retrieve string
  | Pages_create string string "json list option"
  | Pages_update_in_trash string
  | Blocks_children_append string "json list"
  | Blocks_children_list string "string option"

text \<open>
  The file system is a parameter as well: the three calls of \<^verbatim>\<open>fs\<close> and the two of
  \<^verbatim>\<open>path\<close> that the program makes, over the state \<open>'f\<close> of the disk. A read returns the
  content or the error thrown, a write the next state of the disk or the error thrown,
  and \<^verbatim>\<open>readdirSync(dir, { withFileTypes: true })\<close> the entries of a directory, each with
  its \<^verbatim>\<open>name\<close> and the answers of \<^verbatim>\<open>isDirectory()\<close> and \<^verbatim>\<open>isFile()\<close>.
\<close>

record Dirent =
  name :: string
  isDirectory :: bool
  isFile :: bool

record 'f FileSystem =
  readFileSync :: "string \<Rightarrow> 'f \<Rightarrow> js_error + string"
  writeFileSync :: "string \<Rightarrow> string \<Rightarrow> 'f \<Rightarrow> js_error + 'f"
  readdirSync :: "string \<Rightarrow> 'f \<Rightarrow> js_error + Dirent list"
  path_join :: "string \<Rightarrow> string \<Rightarrow> string"
  path_relative :: "string \<Rightarrow> string \<Rightarrow> string"

text \<open>
  What the engine changes: the store, the log of the calls sent to it, the disk, and
  the set of the validated page identifiers of a run.
\<close>

record ('w, 'f) state =
  remote :: 'w
  calls :: "api_call list"
  files :: 'f
  validatedPageIds :: "string list"

definition call_retrieve ::
  "'w NotionClient \<Rightarrow> string \<Rightarrow> ('w, 'f) state \<Rightarrow> (js_error + json) \<times> ('w, 'f) state" where
  "call_retrieve notion pageId st =
     (case pages_retrieve notion pageId (remote st) of
        (r, w) \<Rightarrow> (r, st\<lparr>remote := w, calls := calls st @ [Pages_retrieve pageId]\<rparr>))"

definition call_create ::
  "'w NotionClient \<Rightarrow> string \<Rightarrow> string \<Rightarrow> json list option \<Rightarrow> ('w, 'f) state \<Rightarrow>
   (js_error + string) \<times> ('w, 'f) state" where
  "call_create notion parentPageId t children st =
     (case pages_create notion parentPageId t children (remote st) of
        (r, w) \<Rightarrow> (r, st\<lparr>remote := w, calls := calls st @ [Pages_create parentPageId t children]\<rparr>))"

definition call_update ::
  "'w NotionClient \<Rightarrow> string \<Rightarrow> ('w, 'f) state \<Rightarrow> (js_error + unit) \<times> ('w, 'f) state" where
  "call_update notion pageId st =
     (case pages_update notion pageId (remote st) of
        (r, w) \<Rightarrow> (r, st\<lparr>remote := w, calls := calls st @ [Pages_update_in_trash pageId]\<rparr>))"

definition call_append ::
  "'w NotionClient \<Rightarrow> string \<Rightarrow> json list \<Rightarrow> ('w, 'f) state \<Rightarrow> (js_error + unit) \<times> ('w, 'f) state" where
  "call_append notion pageId children st =
     (case blocks_children_append notion pageId children (remote st) of
        (r, w) \<Rightarrow> (r, st\<lparr>remote := w, calls := calls st @ [Blocks_children_append pageId children]\<rparr>))"

definition call_list ::
  "'w NotionClient \<Rightarrow> string \<Rightarrow> string option \<Rightarrow> ('w, 'f) state \<Rightarrow>
   (js_error + list_block list \<times> string option) \<times> ('w, 'f) state" where
  "call_list notion parentPageId cursor st =
     (case blocks_children_list notion parentPageId cursor (remote st) of
        (r, w) \<Rightarrow> (r, st\<lparr>remote := w, calls := calls st @ [Blocks_children_list parentPageId cursor]\<rparr>))"

subsection \<open>Title matching\<close>

text \<open>
  \<^verbatim>\<open>s.replace(/[-_]+/g, ' ')\<close> and \<^verbatim>\<open>s.replace(/\s+/g, ' ')\<close>: every longest run of
  characters of the class becomes one space.
\<close>

function collapse_runs :: "(char \<Rightarrow> bool) \<Rightarrow> string \<Rightarrow> string" where
  "collapse_runs P [] = []"
| "collapse_runs P (c # cs) =
     (if P c then CHR '' '' # collapse_runs P (dropWhile P cs) else c # collapse_runs P cs)"
  by pat_completeness auto
termination
  by (relation "measure (\<lambda>(P, s). length s)") (auto simp: length_dropWhile_le less_Suc_eq_le)

definition normalizeTitleForMatch :: "string \<Rightarrow> string" where
  "normalizeTitleForMatch s =
     trim (collapse_runs is_space
       (collapse_runs (\<lambda>c. c = CHR ''-'' \<or> c = CHR ''_'') (toLowerCase (trim s))))"

definition titlesMatch :: "string \<Rightarrow> string \<Rightarrow> bool" where
  "titlesMatch a b =
     (let x = normalizeTitleForMatch a; y = normalizeTitleForMatch b
      in 0 < length x \<and> x = y)"

definition getBlockTitle :: "list_block \<Rightarrow> string" where
  "getBlockTitle block =
     (case child_page_title block of
        None \<Rightarrow> []
      | Some titleArr \<Rightarrow>
          trim (concat (map (\<lambda>t. case t of None \<Rightarrow> [] | Some plain_text \<Rightarrow> plain_text) titleArr)))"

text \<open>The \<^verbatim>\<open>for\<close> loop over one page of results: the first child page with the title.\<close>

fun first_match :: "string \<Rightarrow> list_block list \<Rightarrow> string option" where
  "first_match normalizedSearch [] = None"
| "first_match normalizedSearch (b # bs) =
     (if block_type b \<noteq> ''child_page'' then first_match normalizedSearch bs
      else if normalizeTitleForMatch (getBlockTitle b) = normalizedSearch then Some (block_id b)
      else first_match normalizedSearch bs)"

text \<open>
  The \<^verbatim>\<open>do ... while (cursor)\<close> loop of \<^verbatim>\<open>findFirstChildPageByTitle\<close>. The store decides
  whether another page follows, so the loop need not end: \<open>None\<close> is not returning.
\<close>

partial_function (option) findFirstChildPageByTitle_loop ::
  "'w NotionClient \<Rightarrow> string \<Rightarrow> string \<Rightarrow> string option \<Rightarrow> ('w, 'f) state \<Rightarrow>
   ((js_error + string option) \<times> ('w, 'f) state) option" where
  "findFirstChildPageByTitle_loop notion parentPageId normalizedSearch cursor st =
     (case call_list notion parentPageId cursor st of
        (Inl e, st1) \<Rightarrow> Some (Inl e, st1)
      | (Inr (results, next_cursor), st1) \<Rightarrow>
          (case first_match normalizedSearch results of
             Some found \<Rightarrow> Some (Inr (Some found), st1)
           | None \<Rightarrow>
               (case next_cursor of
                  None \<Rightarrow> Some (Inr None, st1)
                | Some c \<Rightarrow>
                    if c \<noteq> []
                    then findFirstChildPageByTitle_loop notion parentPageId normalizedSearch
                           (Some c) st1
                    else Some (Inr None, st1))))"

declare findFirstChildPageByTitle_loop.simps [code]

definition findFirstChildPageByTitle ::
  "'w NotionClient \<Rightarrow> string \<Rightarrow> string \<Rightarrow> ('w, 'f) state \<Rightarrow>
   ((js_error + string option) \<times> ('w, 'f) state) option" where
  "findFirstChildPageByTitle notion parentPageId t st =
     (let normalizedSearch = normalizeTitleForMatch t
      in if normalizedSearch = [] then Some (Inr None, st)
         else findFirstChildPageByTitle_loop notion parentPageId normalizedSearch None st)"

subsection \<open>Folder page cache\<close>

text \<open>\<^verbatim>\<open>if (existingId) return existingId\<close>: an empty identifier counts as none.\<close>

definition getOrCreateFolderPage ::
  "'w NotionClient \<Rightarrow> string \<Rightarrow> string \<Rightarrow> ('w, 'f) state \<Rightarrow>
   ((js_error + string) \<times> ('w, 'f) state) option" where
  "getOrCreateFolderPage notion parentPageId folderTitle' st =
     (case findFirstChildPageByTitle notion parentPageId folderTitle' st of
        None \<Rightarrow> None
      | Some (Inl e, st1) \<Rightarrow> Some (Inl e, st1)
      | Some (Inr existingId, st1) \<Rightarrow>
          (case existingId of
             Some i \<Rightarrow>
               if i \<noteq> [] then Some (Inr i, st1)
               else Some (call_create notion parentPageId folderTitle' None st1)
           | None \<Rightarrow> Some (call_create notion parentPageId folderTitle' None st1)))"

text \<open>
  A \<^verbatim>\<open>Map\<close> from titles to page identifiers is the list of its entries in insertion
  order; \<^verbatim>\<open>cache.set\<close> is \<^const>\<open>AList.update\<close>. The loop of \<^verbatim>\<open>ensureFolderPagesCache\<close>
  over the set of titles:
\<close>

fun ensureFolderPagesCache_loop ::
  "'w NotionClient \<Rightarrow> string \<Rightarrow> string list \<Rightarrow> (string \<times> string) list \<Rightarrow> ('w, 'f) state \<Rightarrow>
   ((js_error + (string \<times> string) list) \<times> ('w, 'f) state) option" where
  "ensureFolderPagesCache_loop notion rootPageId [] cache st = Some (Inr cache, st)"
| "ensureFolderPagesCache_loop notion rootPageId (folderTitle' # folderTitles) cache st =
     (if map_of cache folderTitle' \<noteq> None
      then ensureFolderPagesCache_loop notion rootPageId folderTitles cache st
      else (case getOrCreateFolderPage notion rootPageId folderTitle' st of
              None \<Rightarrow> None
            | Some (Inl e, st1) \<Rightarrow> Some (Inl e, st1)
            | Some (Inr pageId, st1) \<Rightarrow>
                ensureFolderPagesCache_loop notion rootPageId folderTitles
                  (AList.update folderTitle' pageId cache) st1))"

definition ensureFolderPagesCache ::
  "'w NotionClient \<Rightarrow> string \<Rightarrow> string list \<Rightarrow> (string \<times> string) list \<Rightarrow> ('w, 'f) state \<Rightarrow>
   ((js_error + (string \<times> string) list) \<times> ('w, 'f) state) option" where
  "ensureFolderPagesCache notion rootPageId folderTitles initialCache st =
     ensureFolderPagesCache_loop notion rootPageId folderTitles initialCache st"

subsection \<open>Page operations\<close>

definition sendPageToTrash ::
  "'w NotionClient \<Rightarrow> string \<Rightarrow> ('w, 'f) state \<Rightarrow> (js_error + unit) \<times> ('w, 'f) state" where
  "sendPageToTrash notion pageId st = call_update notion pageId st"

text \<open>The \<^verbatim>\<open>for\<close> loop of \<^verbatim>\<open>createSubpage\<close> over the chunks after the first.\<close>

fun append_chunks ::
  "'w NotionClient \<Rightarrow> string \<Rightarrow> json list list \<Rightarrow> ('w, 'f) state \<Rightarrow> (js_error + unit) \<times> ('w, 'f) state" where
  "append_chunks notion pageId [] st = (Inr (), st)"
| "append_chunks notion pageId (chunk # chunks) st =
     (case call_append notion pageId chunk st of
        (Inl e, st1) \<Rightarrow> (Inl e, st1)
      | (Inr u, st1) \<Rightarrow> append_chunks notion pageId chunks st1)"

definition createSubpage ::
  "'w NotionClient \<Rightarrow> string \<Rightarrow> string \<Rightarrow> json list list \<Rightarrow> ('w, 'f) state \<Rightarrow>
   (js_error + string) \<times> ('w, 'f) state" where
  "createSubpage notion parentPageId t blockChunks st =
     (let first = (case blockChunks of [] \<Rightarrow> None | c # cs \<Rightarrow> Some c);
          rest = drop 1 blockChunks
      in case call_create notion parentPageId t first st of
           (Inl e, st1) \<Rightarrow> (Inl e, st1)
         | (Inr pageId, st1) \<Rightarrow>
             (case append_chunks notion pageId rest st1 of
                (Inl e, st2) \<Rightarrow> (Inl e, st2)
              | (Inr u, st2) \<Rightarrow> (Inr pageId, st2)))"

text \<open>
  \<^verbatim>\<open>e?.body?.code ?? e?.code\<close> is the code of the body where there is one, else the code
  of the error. A page that is not found is \<^verbatim>\<open>null\<close>.
\<close>

definition notionRetrievePageIfExists ::
  "'w NotionClient \<Rightarrow> string \<Rightarrow> ('w, 'f) state \<Rightarrow> (js_error + json) \<times> ('w, 'f) state" where
  "notionRetrievePageIfExists notion pageId st =
     (case call_retrieve notion pageId st of
        (Inr page, st1) \<Rightarrow> (Inr page, st1)
      | (Inl e, st1) \<Rightarrow>
          (let code = (case err_body_code e of Some c \<Rightarrow> Some c | None \<Rightarrow> err_code e)
           in if code = Some ''object_not_found'' \<or> err_status e = Some 404
              then (Inr JNull, st1)
              else (Inl e, st1)))"

section \<open>Files\<close>

text \<open>
  \<^verbatim>\<open>collectMdFiles(dir, base)\<close>. The function calls itself on every directory that
  \<^verbatim>\<open>readdirSync\<close> reports, so on a disk that goes on reporting directories it does not
  return: the first argument bounds the depth of the calls, and \<open>None\<close> is a run that
  needs more. An error of \<^verbatim>\<open>readdirSync\<close> is thrown on. \<^verbatim>\<open>files.sort()\<close> orders strings
  by their code units.
\<close>

fun collectMdFiles ::
    "nat \<Rightarrow> 'f FileSystem \<Rightarrow> 'f \<Rightarrow> string \<Rightarrow> string \<Rightarrow> (js_error + string list) option"
  and collect_entries ::
    "nat \<Rightarrow> 'f FileSystem \<Rightarrow> 'f \<Rightarrow> string \<Rightarrow> string \<Rightarrow> Dirent list \<Rightarrow>
     (js_error + string list) option" where
  "collectMdFiles 0 fsys disk dir base = None"
| "collectMdFiles (Suc depth) fsys disk dir base =
     (case readdirSync fsys dir disk of
        Inl err \<Rightarrow> Some (Inl err)
      | Inr entries \<Rightarrow>
          (case collect_entries depth fsys disk dir base entries of
             None \<Rightarrow> None
           | Some (Inl err) \<Rightarrow> Some (Inl err)
           | Some (Inr found) \<Rightarrow> Some (Inr (sort found))))"
| "collect_entries depth fsys disk dir base [] = Some (Inr [])"
| "collect_entries depth fsys disk dir base (e # es) =
     (let full = path_join fsys dir (name e)
      in case (if isDirectory e then collectMdFiles depth fsys disk full base
               else if isFile e \<and> endsWith (toLowerCase (name e)) ''.md''
               then Some (Inr [backslashes_to_slashes (path_relative fsys base full)])
               else Some (Inr [])) of
           None \<Rightarrow> None
         | Some (Inl err) \<Rightarrow> Some (Inl err)
         | Some (Inr pushed) \<Rightarrow>
             (case collect_entries depth fsys disk dir base es of
                None \<Rightarrow> None
              | Some (Inl err) \<Rightarrow> Some (Inl err)
              | Some (Inr found) \<Rightarrow> Some (Inr (pushed @ found))))"

section \<open>Reconciliation engine\<close>

datatype sync_action = created | updated

record SyncResult =
  action :: sync_action
  title :: string
  relPath :: string
  parent :: string

definition resolveNotionParentId ::
  "string \<Rightarrow> string option \<Rightarrow> (string \<times> string) list \<Rightarrow> string" where
  "resolveNotionParentId rootPageId folderTitle' folderPageCache =
     (case folderTitle' of
        None \<Rightarrow> rootPageId
      | Some t \<Rightarrow> (case map_of folderPageCache t of Some pageId \<Rightarrow> pageId | None \<Rightarrow> rootPageId))"

definition resolveExistingDocPageId ::
  "'w NotionClient \<Rightarrow> string option \<Rightarrow> ('w, 'f) state \<Rightarrow> (js_error + string option) \<times> ('w, 'f) state" where
  "resolveExistingDocPageId notion notionPageIdFromFrontmatter st =
     (let i = (case notionPageIdFromFrontmatter of Some x \<Rightarrow> trim x | None \<Rightarrow> [])
      in if i = [] then (Inr None, st)
         else if i \<in> set (validatedPageIds st) then (Inr (Some i), st)
         else (case notionRetrievePageIfExists notion i st of
                 (Inl e, st1) \<Rightarrow> (Inl e, st1)
               | (Inr page, st1) \<Rightarrow>
                   if page \<noteq> JNull
                   then (Inr (Some i),
                         st1\<lparr>validatedPageIds := set_add i (validatedPageIds st1)\<rparr>)
                   else (Inr None, st1)))"

text \<open>
  The tail of \<^verbatim>\<open>syncOneDoc\<close>, the same in both branches: create the page, write the new
  identifier into the file, report the action.
\<close>

definition create_and_persist ::
  "'f FileSystem \<Rightarrow> 'w NotionClient \<Rightarrow> sync_action \<Rightarrow> string \<Rightarrow> string \<Rightarrow> ParsedFrontmatter \<Rightarrow>
   ParsedRelPath \<Rightarrow> string \<Rightarrow> json list list \<Rightarrow> ('w, 'f) state \<Rightarrow>
   (js_error + SyncResult) \<times> ('w, 'f) state" where
  "create_and_persist fsys notion act fullPath relPath' parsed pr parentPageId blockChunks st =
     (case createSubpage notion parentPageId (docTitle pr) blockChunks st of
        (Inl e, st1) \<Rightarrow> (Inl e, st1)
      | (Inr newPageId, st1) \<Rightarrow>
          (let newContent = stringifyMdWithNotionId (body parsed) (data parsed) newPageId
           in case writeFileSync fsys fullPath newContent (files st1) of
                Inl e \<Rightarrow> (Inl e, st1)
              | Inr disk \<Rightarrow>
                  (Inr \<lparr>action = act, title = docTitle pr, relPath = relPath',
                        parent = (case folderTitle pr of Some t \<Rightarrow> t | None \<Rightarrow> ''(root)'')\<rparr>,
                   st1\<lparr>files := disk\<rparr>)))"

text \<open>
  \<^verbatim>\<open>syncOneDoc\<close>. The library that converts Markdown is the parameter
  \<open>markdownToBlocks\<close>; the set \<^verbatim>\<open>validatedPageIds\<close> is part of the state. \<open>None\<close> is a
  run that does not return.
\<close>

definition syncOneDoc ::
  "'f FileSystem \<Rightarrow> 'w NotionClient \<Rightarrow> (string \<Rightarrow> js_error + json) \<Rightarrow> string \<Rightarrow> string \<Rightarrow>
   (string \<times> string) list \<Rightarrow> string \<Rightarrow> ('w, 'f) state \<Rightarrow>
   ((js_error + SyncResult) \<times> ('w, 'f) state) option" where
  "syncOneDoc fsys notion markdownToBlocks rootPageId docsDir folderPageCache relPath' st =
     (let fullPath = path_join fsys docsDir relPath'
      in case readFileSync fsys fullPath (files st) of
        Inl e \<Rightarrow> Some (Inl e, st)
      | Inr rawContent \<Rightarrow>
          (let parsed = parseMdWithNotionId rawContent;
               pr = parseRelPath relPath'
           in case convertMarkdownToNotionBlocks markdownToBlocks (body parsed) of
                Inl e \<Rightarrow> Some (Inl e, st)
              | Inr blocks \<Rightarrow>
                  (case chunkBlocks blocks NOTION_BLOCK_CHUNK_SIZE of
                     None \<Rightarrow> None
                   | Some blockChunks \<Rightarrow>
                       (let parentPageId =
                              resolveNotionParentId rootPageId (folderTitle pr) folderPageCache
                        in case resolveExistingDocPageId notion (notionPageId parsed) st of
                             (Inl e, st1) \<Rightarrow> Some (Inl e, st1)
                           | (Inr None, st1) \<Rightarrow>
                               Some (create_and_persist fsys notion created fullPath relPath'
                                       parsed pr parentPageId blockChunks st1)
                           | (Inr (Some existingPageId), st1) \<Rightarrow>
                               (case sendPageToTrash notion existingPageId st1 of
                                  (Inl e, st2) \<Rightarrow> Some (Inl e, st2)
                                | (Inr u, st2) \<Rightarrow>
                                    Some (create_and_persist fsys notion updated fullPath
                                            relPath' parsed pr parentPageId blockChunks st2))))))"

section \<open>Change selector\<close>

text \<open>
  \<^verbatim>\<open>addDocsWithoutPageId\<close>: every document under the root whose header gives no
  identifier joins the set; a read that fails throws.
\<close>

fun add_docs_loop ::
  "'f FileSystem \<Rightarrow> 'f \<Rightarrow> string \<Rightarrow> string list \<Rightarrow> string list \<Rightarrow> js_error + string list" where
  "add_docs_loop fsys disk docsDir [] relPathsSet = Inr relPathsSet"
| "add_docs_loop fsys disk docsDir (p # ps) relPathsSet =
     (case readFileSync fsys (path_join fsys docsDir p) disk of
        Inl e \<Rightarrow> Inl e
      | Inr raw \<Rightarrow>
          (let i = (case notionPageId (parseMdWithNotionId raw) of Some x \<Rightarrow> trim x | None \<Rightarrow> [])
           in add_docs_loop fsys disk docsDir ps
                (if i = [] then set_add p relPathsSet else relPathsSet)))"

definition addDocsWithoutPageId ::
  "nat \<Rightarrow> 'f FileSystem \<Rightarrow> 'f \<Rightarrow> string \<Rightarrow> string list \<Rightarrow> (js_error + string list) option" where
  "addDocsWithoutPageId depth fsys disk docsDir relPathsSet =
     (case collectMdFiles depth fsys disk docsDir docsDir of
        None \<Rightarrow> None
      | Some (Inl e) \<Rightarrow> Some (Inl e)
      | Some (Inr allMd) \<Rightarrow> Some (add_docs_loop fsys disk docsDir allMd relPathsSet))"

text \<open>The head of \<^verbatim>\<open>runSync\<close>: the list \<^verbatim>\<open>mdFiles\<close> of the documents the run goes through.\<close>

definition runSync_mdFiles ::
  "nat \<Rightarrow> 'f FileSystem \<Rightarrow> 'f \<Rightarrow> string \<Rightarrow> string list option \<Rightarrow>
   (js_error + string list) option" where
  "runSync_mdFiles depth fsys disk docsDir optionalRelPaths =
     (case optionalRelPaths of
        Some ps \<Rightarrow>
          (case addDocsWithoutPageId depth fsys disk docsDir (new_Set ps) of
             None \<Rightarrow> None
           | Some (Inl e) \<Rightarrow> Some (Inl e)
           | Some (Inr st) \<Rightarrow> Some (Inr (sort st)))
      | None \<Rightarrow> collectMdFiles depth fsys disk docsDir docsDir)"

text \<open>
  The entry point \<^verbatim>\<open>run\<close>, up to its call of \<^verbatim>\<open>runSync\<close>. \<open>changed\<close> is what
  \<^verbatim>\<open>getChangedMdPaths\<close> returned for the two references. The result is \<open>None\<close> where
  \<^verbatim>\<open>run\<close> returns before it calls \<^verbatim>\<open>runSync\<close> (it reports no synced file), else the
  argument \<^verbatim>\<open>changedRelPaths\<close> of the call, itself absent for a full run.
\<close>

datatype sync_mode = mode_changed | mode_all

definition run_changedRelPaths ::
  "sync_mode \<Rightarrow> string \<Rightarrow> string \<Rightarrow> string list option \<Rightarrow> string list option option" where
  "run_changedRelPaths syncMode gitBefore gitAfter changed' =
     (if syncMode = mode_changed
      then (let hasPushRefs = (gitBefore \<noteq> [] \<and> gitAfter \<noteq> [])
            in if \<not> hasPushRefs then Some None
               else (case changed' of
                       None \<Rightarrow> Some None
                     | Some ch \<Rightarrow> if length ch = 0 then None else Some (Some ch)))
      else Some None)"

text \<open>The documents a run goes through: none where \<^verbatim>\<open>run\<close> returns early.\<close>

definition run_working_set ::
  "nat \<Rightarrow> 'f FileSystem \<Rightarrow> 'f \<Rightarrow> string \<Rightarrow> sync_mode \<Rightarrow> string \<Rightarrow> string \<Rightarrow> string list option \<Rightarrow>
   (js_error + string list) option" where
  "run_working_set depth fsys disk docsDir syncMode gitBefore gitAfter changed' =
     (case run_changedRelPaths syncMode gitBefore gitAfter changed' of
        None \<Rightarrow> Some (Inr [])
      | Some changedRelPaths \<Rightarrow> runSync_mdFiles depth fsys disk docsDir changedRelPaths)"

section \<open>Concurrency runner\<close>

text \<open>
  The runner is cooperative: a worker runs until it awaits the promise of the task it
  has started, and goes on when that promise settles. A task is given by how its promise
  settles. A worker awaits the task of an index, has returned, or has failed with the
  error of its task. The state of a run is the array \<^verbatim>\<open>results\<close> (\<open>None\<close> is an
  empty slot), the counter \<^verbatim>\<open>index\<close>, the workers, and the first error that rejected
  \<^verbatim>\<open>Promise.all(workers)\<close>, if any.
\<close>

datatype 'a settled = Fulfilled 'a | Rejected js_error

datatype worker = Awaiting nat | Returned | Failed js_error

record 'a pool =
  results :: "'a option list"
  index :: nat
  workers :: "worker list"
  rejection :: "js_error option"

text \<open>
  The loop of a worker up to its next \<^verbatim>\<open>await\<close>: it claims the next index and starts
  that task, or returns when no index is left.
\<close>

definition worker_loop :: "nat \<Rightarrow> 'a pool \<Rightarrow> worker \<times> 'a pool" where
  "worker_loop n s =
     (if index s < n then (Awaiting (index s), s\<lparr>index := index s + 1\<rparr>) else (Returned, s))"

text \<open>
  \<^verbatim>\<open>Array.from({ length: Math.min(concurrency, taskFns.length) }, () => worker())\<close>: the
  workers are started one after the other, each up to its first \<^verbatim>\<open>await\<close>.
\<close>

definition spawn :: "nat \<Rightarrow> 'a pool \<Rightarrow> 'a pool" where
  "spawn n s = (case worker_loop n s of (w, s1) \<Rightarrow> s1\<lparr>workers := workers s1 @ [w]\<rparr>)"

definition start :: "'a settled list \<Rightarrow> nat \<Rightarrow> 'a pool" where
  "start taskFns concurrency =
     ((spawn (length taskFns)) ^^ (min concurrency (length taskFns)))
       \<lparr>results = replicate (length taskFns) None, index = 0, workers = [], rejection = None\<rparr>"

text \<open>
  One step of a run: the promise that worker \<open>w\<close> awaits settles and the worker goes on.
  A fulfilled task has its value stored at its own index and the worker takes up its
  loop; a rejected one ends the worker, and the first such error rejects
  \<^verbatim>\<open>Promise.all\<close>. A worker that awaits nothing does not move.
\<close>

definition resume :: "'a settled list \<Rightarrow> nat \<Rightarrow> 'a pool \<Rightarrow> 'a pool" where
  "resume taskFns w s =
     (if w < length (workers s)
      then (case workers s ! w of
              Awaiting i \<Rightarrow>
                (if i < length taskFns
                 then (case taskFns ! i of
                         Fulfilled v \<Rightarrow>
                           (case worker_loop (length taskFns) (s\<lparr>results := (results s)[i := Some v]\<rparr>) of
                              (wk, s1) \<Rightarrow> s1\<lparr>workers := (workers s1)[w := wk]\<rparr>)
                       | Rejected e \<Rightarrow>
                           s\<lparr>workers := (workers s)[w := Failed e],
                             rejection := (case rejection s of None \<Rightarrow> Some e | Some e0 \<Rightarrow> Some e0)\<rparr>)
                 else s)
            | Returned \<Rightarrow> s
            | Failed e \<Rightarrow> s)
      else s)"

text \<open>
  A schedule names, step by step, the worker whose promise settles next: the order in
  which the tasks complete.
\<close>

definition runWithConcurrency_steps :: "'a settled list \<Rightarrow> nat \<Rightarrow> nat list \<Rightarrow> 'a pool" where
  "runWithConcurrency_steps taskFns concurrency schedule =
     foldl (\<lambda>s w. resume taskFns w s) (start taskFns concurrency) schedule"

text \<open>
  What the caller of \<^verbatim>\<open>runWithConcurrency\<close> sees: the rejection with the first error, the
  array once every worker has returned, or nothing yet.
\<close>

datatype 'a promise = Pending | Resolved 'a | RejectedWith js_error

definition runWithConcurrency_result :: "'a pool \<Rightarrow> 'a option list promise" where
  "runWithConcurrency_result s =
     (case rejection s of
        Some e \<Rightarrow> RejectedWith e
      | None \<Rightarrow> if list_all (\<lambda>w. w = Returned) (workers s) then Resolved (results s) else Pending)"

definition in_flight :: "'a pool \<Rightarrow> nat" where
  "in_flight s = length (filter (\<lambda>w. case w of Awaiting i \<Rightarrow> True | _ \<Rightarrow> False) (workers s))"

section \<open>A store in memory\<close>

text \<open>
  A small store for the examples: its state is the list of the identifiers of the live
  pages. A page that is not there is reported as the client reports it (status 404,
  code \<^verbatim>\<open>object_not_found\<close>); a new page gets the next free number; no page has
  children to list.
\<close>

definition memory_store :: "string list NotionClient" where
  "memory_store =
     \<lparr>pages_retrieve =
        (\<lambda>pageId w.
           (if pageId \<in> set w then Inr (JObj [(''id'', JStr pageId)])
            else Inl (Thrown ''APIResponseError'' (Some 404) (Some ''object_not_found'') None), w)),
      pages_create =
        (\<lambda>parentPageId t children w.
           (Inr (''page-'' @ index_key (length w)), w @ [''page-'' @ index_key (length w)])),
      pages_update = (\<lambda>pageId w. (Inr (), filter (\<lambda>x. x \<noteq> pageId) w)),
      blocks_children_append = (\<lambda>pageId children w. (Inr (), w)),
      blocks_children_list = (\<lambda>parentPageId cursor w. (Inr ([], None), w))\<rparr>"

text \<open>
  A store that also keeps the blocks of its pages: its state lists each live page with
  the blocks it holds, in order. A creation stores the children given, an append adds
  the blocks at the end of the page, and fails on a page that is not there.
\<close>

definition block_store :: "(string \<times> json list) list NotionClient" where
  "block_store =
     \<lparr>pages_retrieve =
        (\<lambda>pageId w.
           (if map_of w pageId \<noteq> None then Inr (JObj [(''id'', JStr pageId)])
            else Inl (Thrown ''APIResponseError'' (Some 404) (Some ''object_not_found'') None), w)),
      pages_create =
        (\<lambda>parentPageId t children w.
           (Inr (''page-'' @ index_key (length w)),
            w @ [(''page-'' @ index_key (length w),
                  (case children of None \<Rightarrow> [] | Some blocks \<Rightarrow> blocks))])),
      pages_update = (\<lambda>pageId w. (Inr (), filter (\<lambda>kv. fst kv \<noteq> pageId) w)),
      blocks_children_append =
        (\<lambda>pageId children w.
           (case map_of w pageId of
              None \<Rightarrow>
                (Inl (Thrown ''APIResponseError'' (Some 404) (Some ''object_not_found'') None), w)
            | Some held \<Rightarrow> (Inr (), AList.update pageId (held @ children) w))),
      blocks_children_list = (\<lambda>parentPageId cursor w. (Inr ([], None), w))\<rparr>"

text \<open>
  A small disk for the examples: its state lists each file by its full path with its
  content. A directory is there when a file lies below it; paths are joined with a
  slash, and the path relative to a base is what follows the base and its slash.
\<close>

definition memory_fs :: "(string \<times> string) list FileSystem" where
  "memory_fs =
     \<lparr>readFileSync =
        (\<lambda>path disk. case map_of disk path of Some content \<Rightarrow> Inr content | None \<Rightarrow> Inl ENOENT),
      writeFileSync = (\<lambda>path content disk. Inr (AList.update path content disk)),
      readdirSync =
        (\<lambda>dir disk.
           (let below = map (\<lambda>kv. drop (length dir + 1) (fst kv))
                          (filter (\<lambda>kv. startsWith (fst kv) (dir @ ''/'')) disk)
            in if below = [] then Inl ENOENT
               else Inr (map (\<lambda>n. \<lparr>name = n,
                                     isDirectory = list_ex (\<lambda>r. startsWith r (n @ ''/'')) below,
                                     isFile = (n \<in> set below)\<rparr>)
                          (remdups (map (takeWhile (\<lambda>c. c \<noteq> CHR ''/'')) below))))),
      path_join = (\<lambda>a b. a @ ''/'' @ b),
      path_relative = (\<lambda>base full. drop (length base + 1) full)\<rparr>"

section \<open>Chunking and page creation\<close>

lemma slice_concat:
  "slice xs i (i + sz) @ drop (i + sz) xs = drop i xs"
proof -
  have "slice xs i (i + sz) = take sz (drop i xs)"
    unfolding slice_def by (subst drop_take) simp
  moreover have "drop (i + sz) xs = drop sz (drop i xs)"
    by (simp add: add.commute)
  ultimately show ?thesis by (simp only: append_take_drop_id)
qed

lemma slice_length: "length (slice xs i (i + sz)) = min sz (length xs - i)"
  unfolding slice_def by simp

lemma chunkBlocks_loop_spec:
  assumes "0 < sz"
  shows "\<exists>rest. chunkBlocks_loop blocks sz i chunks = Some (chunks @ rest) \<and>
           concat rest = drop i blocks \<and>
           (\<forall>c \<in> set (butlast rest). length c = sz) \<and>
           (\<forall>c \<in> set rest. c \<noteq> [] \<and> length c \<le> sz)"
proof (induction "length blocks - i" arbitrary: i chunks rule: less_induct)
  case less
  show ?case
  proof (cases "i < length blocks")
    case False
    then have "chunkBlocks_loop blocks sz i chunks = Some (chunks @ [])"
      by (subst chunkBlocks_loop.simps) simp
    moreover have "concat [] = drop i blocks" using False by simp
    ultimately show ?thesis by (intro exI [of _ "[]"]) simp
  next
    case True
    define c where "c = slice blocks i (i + sz)"
    have lt: "length blocks - (i + sz) < length blocks - i"
      using True assms by arith
    obtain rest where
      r1: "chunkBlocks_loop blocks sz (i + sz) ((chunks @ [c])) = Some ((chunks @ [c]) @ rest)" and
      r2: "concat rest = drop (i + sz) blocks" and
      r3: "\<forall>x \<in> set (butlast rest). length x = sz" and
      r4: "\<forall>x \<in> set rest. x \<noteq> [] \<and> length x \<le> sz"
      using less [OF lt, of "chunks @ [c]"] by blast
    have step: "chunkBlocks_loop blocks sz i chunks = Some (chunks @ (c # rest))"
      using True r1 by (subst chunkBlocks_loop.simps) (simp add: c_def)
    have cc: "concat (c # rest) = drop i blocks"
      using r2 slice_concat [of blocks i sz] by (simp add: c_def)
    have clen: "length c = min sz (length blocks - i)"
      by (simp add: c_def slice_length)
    have cne: "c \<noteq> [] \<and> length c \<le> sz"
      using clen True assms by (cases c) auto
    have full: "length c = sz" if "rest \<noteq> []"
    proof -
      from that obtain x xs where "rest = x # xs" by (cases rest) auto
      with r4 have "concat rest \<noteq> []" by auto
      with r2 have "i + sz < length blocks" by simp
      with clen show ?thesis by simp
    qed
    have bl: "\<forall>x \<in> set (butlast (c # rest)). length x = sz"
      using r3 full by auto
    have al: "\<forall>x \<in> set (c # rest). x \<noteq> [] \<and> length x \<le> sz"
      using r4 cne by auto
    show ?thesis
      using step cc bl al by blast
  qed
qed

lemma call_append_eq:
  "call_append notion pageId c st =
     (fst (blocks_children_append notion pageId c (remote st)),
      st\<lparr>remote := snd (blocks_children_append notion pageId c (remote st)),
         calls := calls st @ [Blocks_children_append pageId c]\<rparr>)"
  by (simp add: call_append_def split: prod.splits)

lemma call_create_eq:
  "call_create notion parentPageId t children st =
     (fst (pages_create notion parentPageId t children (remote st)),
      st\<lparr>remote := snd (pages_create notion parentPageId t children (remote st)),
         calls := calls st @ [Pages_create parentPageId t children]\<rparr>)"
  by (simp add: call_create_def split: prod.splits)

lemma append_chunks_returns:
  "append_chunks notion pageId chunks st = (Inr u, st') \<longleftrightarrow>
     (\<forall>k<length chunks.
         fst (blocks_children_append notion pageId (chunks ! k)
                (foldl (\<lambda>w c. snd (blocks_children_append notion pageId c w)) (remote st)
                   (take k chunks))) = Inr ()) \<and>
     st' = st\<lparr>remote := foldl (\<lambda>w c. snd (blocks_children_append notion pageId c w))
                            (remote st) chunks,
              calls := calls st @ map (Blocks_children_append pageId) chunks\<rparr>"
proof (induction chunks arbitrary: st)
  case Nil
  show ?case by auto
next
  case (Cons c cs)
  define st1 where "st1 = st\<lparr>remote := snd (blocks_children_append notion pageId c (remote st)),
         calls := calls st @ [Blocks_children_append pageId c]\<rparr>"
  have r1: "remote st1 = snd (blocks_children_append notion pageId c (remote st))"
    and c1: "calls st1 = calls st @ [Blocks_children_append pageId c]"
    by (simp_all add: st1_def)
  show ?case
  proof (cases "fst (blocks_children_append notion pageId c (remote st))")
    case (Inl e)
    then have "append_chunks notion pageId (c # cs) st = (Inl e, st1)"
      by (simp add: call_append_eq st1_def)
    moreover have "\<not> (\<forall>k<length (c # cs).
         fst (blocks_children_append notion pageId ((c # cs) ! k)
                (foldl (\<lambda>w c. snd (blocks_children_append notion pageId c w)) (remote st)
                   (take k (c # cs)))) = Inr ())"
      using Inl by (auto intro!: exI [of _ 0])
    ultimately show ?thesis by simp
  next
    case (Inr x)
    then have step: "append_chunks notion pageId (c # cs) st = append_chunks notion pageId cs st1"
      by (simp add: call_append_eq st1_def)
    have all: "(\<forall>k<length (c # cs).
         fst (blocks_children_append notion pageId ((c # cs) ! k)
                (foldl (\<lambda>w c. snd (blocks_children_append notion pageId c w)) (remote st)
                   (take k (c # cs)))) = Inr ()) \<longleftrightarrow>
       (\<forall>k<length cs.
         fst (blocks_children_append notion pageId (cs ! k)
                (foldl (\<lambda>w c. snd (blocks_children_append notion pageId c w)) (remote st1)
                   (take k cs))) = Inr ())"
      using Inr by (simp add: All_less_Suc2 r1)
    have st: "st1\<lparr>remote := foldl (\<lambda>w c. snd (blocks_children_append notion pageId c w))
                            (remote st1) cs,
              calls := calls st1 @ map (Blocks_children_append pageId) cs\<rparr> =
          st\<lparr>remote := foldl (\<lambda>w c. snd (blocks_children_append notion pageId c w))
                            (remote st) (c # cs),
              calls := calls st @ map (Blocks_children_append pageId) (c # cs)\<rparr>"
      by (simp add: st1_def)
    show ?thesis
      unfolding step Cons.IH [of st1] all st ..
  qed
qed

lemma append_chunks_throws:
  "append_chunks notion pageId chunks st = (Inl e, st') \<longleftrightarrow>
     (\<exists>k<length chunks.
         (\<forall>j<k. fst (blocks_children_append notion pageId (chunks ! j)
                (foldl (\<lambda>w c. snd (blocks_children_append notion pageId c w)) (remote st)
                   (take j chunks))) = Inr ()) \<and>
         fst (blocks_children_append notion pageId (chunks ! k)
                (foldl (\<lambda>w c. snd (blocks_children_append notion pageId c w)) (remote st)
                   (take k chunks))) = Inl e \<and>
         st' = st\<lparr>remote := foldl (\<lambda>w c. snd (blocks_children_append notion pageId c w))
                            (remote st) (take (Suc k) chunks),
              calls := calls st @ map (Blocks_children_append pageId) (take (Suc k) chunks)\<rparr>)"
proof (induction chunks arbitrary: st)
  case Nil
  show ?case by auto
next
  case (Cons c cs)
  define st1 where "st1 = st\<lparr>remote := snd (blocks_children_append notion pageId c (remote st)),
         calls := calls st @ [Blocks_children_append pageId c]\<rparr>"
  have r1: "remote st1 = snd (blocks_children_append notion pageId c (remote st))"
    and c1: "calls st1 = calls st @ [Blocks_children_append pageId c]"
    by (simp_all add: st1_def)
  let ?W = "\<lambda>w cs. foldl (\<lambda>w c. snd (blocks_children_append notion pageId c w)) w cs"
  let ?P = "\<lambda>k. (\<forall>j<k. fst (blocks_children_append notion pageId ((c # cs) ! j)
                (?W (remote st) (take j (c # cs)))) = Inr ()) \<and>
         fst (blocks_children_append notion pageId ((c # cs) ! k)
                (?W (remote st) (take k (c # cs)))) = Inl e \<and>
         st' = st\<lparr>remote := ?W (remote st) (take (Suc k) (c # cs)),
              calls := calls st @ map (Blocks_children_append pageId) (take (Suc k) (c # cs))\<rparr>"
  let ?Q = "\<lambda>k. (\<forall>j<k. fst (blocks_children_append notion pageId (cs ! j)
                (?W (remote st1) (take j cs))) = Inr ()) \<and>
         fst (blocks_children_append notion pageId (cs ! k)
                (?W (remote st1) (take k cs))) = Inl e \<and>
         st' = st1\<lparr>remote := ?W (remote st1) (take (Suc k) cs),
              calls := calls st1 @ map (Blocks_children_append pageId) (take (Suc k) cs)\<rparr>"
  have split: "(\<exists>k<length (c # cs). ?P k) \<longleftrightarrow> ?P 0 \<or> (\<exists>k<length cs. ?P (Suc k))"
    by (simp only: length_Cons Ex_less_Suc2)
  show ?case
  proof (cases "fst (blocks_children_append notion pageId c (remote st))")
    case (Inl e0)
    then have run: "append_chunks notion pageId (c # cs) st = (Inl e0, st1)"
      by (simp add: call_append_eq st1_def)
    have p0: "?P 0 \<longleftrightarrow> e0 = e \<and> st' = st1"
      using Inl by (auto simp: st1_def)
    have ps: "\<not> ?P (Suc k)" for k
      using Inl by (auto intro!: exI [of _ 0])
    have "(\<exists>k<length (c # cs). ?P k) \<longleftrightarrow> e0 = e \<and> st' = st1"
      by (simp only: split p0 ps simp_thms)
    then show ?thesis
      unfolding run by auto
  next
    case (Inr x)
    then have step: "append_chunks notion pageId (c # cs) st = append_chunks notion pageId cs st1"
      by (simp add: call_append_eq st1_def)
    have p0: "\<not> ?P 0" using Inr by simp
    have ps: "?P (Suc k) \<longleftrightarrow> ?Q k" for k
      using Inr by (simp add: All_less_Suc2 r1 st1_def)
    have "(\<exists>k<length (c # cs). ?P k) \<longleftrightarrow> (\<exists>k<length cs. ?Q k)"
      by (simp only: split p0 ps simp_thms)
    then show ?thesis
      by (simp only: step Cons.IH [of st1])
  qed
qed

lemma createSubpage_returns:
  "createSubpage notion parentPageId t chunks st = (Inr pageId, st') \<longleftrightarrow>
     (let first = (case chunks of [] \<Rightarrow> None | c # cs \<Rightarrow> Some c);
          rest = drop 1 chunks;
          new_page = pages_create notion parentPageId t first (remote st);
          appended = (\<lambda>k. foldl (\<lambda>w c. snd (blocks_children_append notion pageId c w))
                              (snd new_page) (take k rest))
      in fst new_page = Inr pageId \<and>
         (\<forall>k<length rest.
             fst (blocks_children_append notion pageId (rest ! k) (appended k)) = Inr ()) \<and>
         st' = st\<lparr>remote := appended (length rest),
                  calls := calls st @ Pages_create parentPageId t first #
                             map (Blocks_children_append pageId) rest\<rparr>)"
proof -
  let ?first = "case chunks of [] \<Rightarrow> None | c # cs \<Rightarrow> Some c"
  define st1 where "st1 = st\<lparr>remote := snd (pages_create notion parentPageId t ?first (remote st)),
         calls := calls st @ [Pages_create parentPageId t ?first]\<rparr>"
  show ?thesis
  proof (cases "fst (pages_create notion parentPageId t ?first (remote st))")
    case (Inl e)
    then show ?thesis
      by (simp add: createSubpage_def call_create_eq Let_def)
  next
    case (Inr pid)
    have run: "createSubpage notion parentPageId t chunks st = (Inr pageId, st') \<longleftrightarrow>
        pid = pageId \<and> append_chunks notion pid (drop 1 chunks) st1 = (Inr (), st')"
      using Inr
      by (cases "append_chunks notion pid (drop 1 chunks) st1";
          cases "fst (append_chunks notion pid (drop 1 chunks) st1)")
         (auto simp: createSubpage_def call_create_eq Let_def st1_def)
    show ?thesis
      unfolding run using Inr
      by (auto simp: append_chunks_returns Let_def st1_def)
  qed
qed

lemma createSubpage_create_throws:
  "fst (pages_create notion parentPageId t (case chunks of [] \<Rightarrow> None | c # cs \<Rightarrow> Some c)
          (remote st)) = Inl e \<Longrightarrow>
   createSubpage notion parentPageId t chunks st =
     (Inl e, st\<lparr>remote := snd (pages_create notion parentPageId t
                              (case chunks of [] \<Rightarrow> None | c # cs \<Rightarrow> Some c) (remote st)),
               calls := calls st @ [Pages_create parentPageId t
                              (case chunks of [] \<Rightarrow> None | c # cs \<Rightarrow> Some c)]\<rparr>)"
  by (simp add: createSubpage_def call_create_eq Let_def)

lemma createSubpage_append_throws:
  assumes "fst (pages_create notion parentPageId t (case chunks of [] \<Rightarrow> None | c # cs \<Rightarrow> Some c)
          (remote st)) = Inr pageId"
  shows "createSubpage notion parentPageId t chunks st = (Inl e, st') \<longleftrightarrow>
     (let first = (case chunks of [] \<Rightarrow> None | c # cs \<Rightarrow> Some c);
          rest = drop 1 chunks;
          new_page = pages_create notion parentPageId t first (remote st);
          appended = (\<lambda>k. foldl (\<lambda>w c. snd (blocks_children_append notion pageId c w))
                              (snd new_page) (take k rest))
      in \<exists>k<length rest.
           (\<forall>j<k. fst (blocks_children_append notion pageId (rest ! j) (appended j)) = Inr ()) \<and>
           fst (blocks_children_append notion pageId (rest ! k) (appended k)) = Inl e \<and>
           st' = st\<lparr>remote := appended (Suc k),
                    calls := calls st @ Pages_create parentPageId t first #
                               map (Blocks_children_append pageId) (take (Suc k) rest)\<rparr>)"
proof -
  let ?first = "case chunks of [] \<Rightarrow> None | c # cs \<Rightarrow> Some c"
  define st1 where "st1 = st\<lparr>remote := snd (pages_create notion parentPageId t ?first (remote st)),
         calls := calls st @ [Pages_create parentPageId t ?first]\<rparr>"
  have run: "createSubpage notion parentPageId t chunks st = (Inl e, st') \<longleftrightarrow>
        append_chunks notion pageId (drop 1 chunks) st1 = (Inl e, st')"
    using assms
    by (cases "append_chunks notion pageId (drop 1 chunks) st1";
        cases "fst (append_chunks notion pageId (drop 1 chunks) st1)")
       (auto simp: createSubpage_def call_create_eq Let_def st1_def)
  show ?thesis
    unfolding run
    by (simp add: append_chunks_throws Let_def st1_def)
qed


lemma createSubpage_spec:
  "let first = (case chunks of [] \<Rightarrow> None | c # cs \<Rightarrow> Some c);
       rest = drop 1 chunks;
       new_page = pages_create notion parentPageId t first (remote st);
       appended = (\<lambda>pageId k. foldl (\<lambda>w c. snd (blocks_children_append notion pageId c w))
                                    (snd new_page) (take k rest));
       sent = (\<lambda>pageId k. calls st @ Pages_create parentPageId t first #
                                    map (Blocks_children_append pageId) (take k rest))
   in (\<forall>pageId st'.
         createSubpage notion parentPageId t chunks st = (Inr pageId, st') \<longleftrightarrow>
           fst new_page = Inr pageId \<and>
           (\<forall>k<length rest.
               fst (blocks_children_append notion pageId (rest ! k) (appended pageId k)) = Inr ()) \<and>
           st' = st\<lparr>remote := appended pageId (length rest),
                    calls := sent pageId (length rest)\<rparr>) \<and>
      (\<forall>e st'.
         createSubpage notion parentPageId t chunks st = (Inl e, st') \<longleftrightarrow>
           fst new_page = Inl e \<and>
             st' = st\<lparr>remote := snd new_page, calls := calls st @ [Pages_create parentPageId t first]\<rparr> \<or>
           (\<exists>pageId k.
              fst new_page = Inr pageId \<and> k < length rest \<and>
              (\<forall>j<k. fst (blocks_children_append notion pageId (rest ! j) (appended pageId j)) =
                        Inr ()) \<and>
              fst (blocks_children_append notion pageId (rest ! k) (appended pageId k)) = Inl e \<and>
              st' = st\<lparr>remote := appended pageId (Suc k), calls := sent pageId (Suc k)\<rparr>))"
proof -
  let ?first = "case chunks of [] \<Rightarrow> None | c # cs \<Rightarrow> Some c"
  have a: "createSubpage notion parentPageId t chunks st = (Inr pageId, st') \<longleftrightarrow>
           fst (pages_create notion parentPageId t ?first (remote st)) = Inr pageId \<and>
           (\<forall>k<length (drop 1 chunks).
               fst (blocks_children_append notion pageId (drop 1 chunks ! k)
                 (foldl (\<lambda>w c. snd (blocks_children_append notion pageId c w))
                    (snd (pages_create notion parentPageId t ?first (remote st)))
                    (take k (drop 1 chunks)))) = Inr ()) \<and>
           st' = st\<lparr>remote := foldl (\<lambda>w c. snd (blocks_children_append notion pageId c w))
                    (snd (pages_create notion parentPageId t ?first (remote st)))
                    (take (length (drop 1 chunks)) (drop 1 chunks)),
                    calls := calls st @ Pages_create parentPageId t ?first #
                      map (Blocks_children_append pageId)
                        (take (length (drop 1 chunks)) (drop 1 chunks))\<rparr>" for pageId st'
    using createSubpage_returns [of notion parentPageId t chunks st pageId st']
    by (simp add: Let_def)
  have b: "createSubpage notion parentPageId t chunks st = (Inl e, st') \<longleftrightarrow>
           fst (pages_create notion parentPageId t ?first (remote st)) = Inl e \<and>
             st' = st\<lparr>remote := snd (pages_create notion parentPageId t ?first (remote st)),
                      calls := calls st @ [Pages_create parentPageId t ?first]\<rparr> \<or>
           (\<exists>pageId k.
              fst (pages_create notion parentPageId t ?first (remote st)) = Inr pageId \<and>
              k < length (drop 1 chunks) \<and>
              (\<forall>j<k. fst (blocks_children_append notion pageId (drop 1 chunks ! j)
                 (foldl (\<lambda>w c. snd (blocks_children_append notion pageId c w))
                    (snd (pages_create notion parentPageId t ?first (remote st)))
                    (take j (drop 1 chunks)))) = Inr ()) \<and>
              fst (blocks_children_append notion pageId (drop 1 chunks ! k)
                 (foldl (\<lambda>w c. snd (blocks_children_append notion pageId c w))
                    (snd (pages_create notion parentPageId t ?first (remote st)))
                    (take k (drop 1 chunks)))) = Inl e \<and>
              st' = st\<lparr>remote := foldl (\<lambda>w c. snd (blocks_children_append notion pageId c w))
                    (snd (pages_create notion parentPageId t ?first (remote st)))
                    (take (Suc k) (drop 1 chunks)),
                    calls := calls st @ Pages_create parentPageId t ?first #
                      map (Blocks_children_append pageId) (take (Suc k) (drop 1 chunks))\<rparr>)"
    for e st'
  proof (cases "fst (pages_create notion parentPageId t ?first (remote st))")
    case (Inl e0)
    from createSubpage_create_throws [OF this]
    show ?thesis using Inl by auto
  next
    case (Inr pid)
    from createSubpage_append_throws [OF this, of e st']
    show ?thesis using Inr by (simp add: Let_def)
  qed
  show ?thesis
    unfolding Let_def using a b by blast
qed

text \<open>
  Claim C7. \<^verbatim>\<open>chunkBlocks\<close> with the size 100 returns, for every list of blocks, chunks
  whose concatenation in order is the list; every chunk but the last has exactly 100
  blocks, no chunk is empty (and none has more than 100), and a list that is not empty
  gives at least one chunk. \<^verbatim>\<open>createSubpage\<close> with these chunks calls \<^verbatim>\<open>pages.create\<close> on
  the store with the first chunk as children (none when there is no chunk), then
  \<^verbatim>\<open>blocks.children.append\<close> on the store that the call before left, once for each
  further chunk in the order of the chunks, to the page that the creation returned. It
  returns that page exactly when the creation and every append succeed; the state is
  then the store after the last append, with these calls and no others added to the
  log, and nothing else changed. It throws exactly when the creation throws, and then no
  append is made, or when an append throws, and then no later chunk is sent.
\<close>

theorem chunkBlocks_createSubpage:
  "\<exists>chunks. chunkBlocks blocks NOTION_BLOCK_CHUNK_SIZE = Some chunks \<and>
      concat chunks = blocks \<and>
      (\<forall>c \<in> set (butlast chunks). length c = 100) \<and>
      (\<forall>c \<in> set chunks. c \<noteq> [] \<and> length c \<le> 100) \<and>
      (blocks \<noteq> [] \<longrightarrow> chunks \<noteq> []) \<and>
      (\<forall>(notion :: 'w NotionClient) parentPageId t (st :: ('w, 'f) state).
         let first = (case chunks of [] \<Rightarrow> None | c # cs \<Rightarrow> Some c);
             rest = drop 1 chunks;
             new_page = pages_create notion parentPageId t first (remote st);
             appended = (\<lambda>pageId k. foldl (\<lambda>w c. snd (blocks_children_append notion pageId c w))
                                          (snd new_page) (take k rest));
             sent = (\<lambda>pageId k. calls st @ Pages_create parentPageId t first #
                                          map (Blocks_children_append pageId) (take k rest))
         in (\<forall>pageId st'.
               createSubpage notion parentPageId t chunks st = (Inr pageId, st') \<longleftrightarrow>
                 fst new_page = Inr pageId \<and>
                 (\<forall>k<length rest.
                     fst (blocks_children_append notion pageId (rest ! k) (appended pageId k)) =
                       Inr ()) \<and>
                 st' = st\<lparr>remote := appended pageId (length rest),
                          calls := sent pageId (length rest)\<rparr>) \<and>
            (\<forall>e st'.
               createSubpage notion parentPageId t chunks st = (Inl e, st') \<longleftrightarrow>
                 fst new_page = Inl e \<and>
                   st' = st\<lparr>remote := snd new_page,
                            calls := calls st @ [Pages_create parentPageId t first]\<rparr> \<or>
                 (\<exists>pageId k.
                    fst new_page = Inr pageId \<and> k < length rest \<and>
                    (\<forall>j<k. fst (blocks_children_append notion pageId (rest ! j)
                                   (appended pageId j)) = Inr ()) \<and>
                    fst (blocks_children_append notion pageId (rest ! k) (appended pageId k)) =
                      Inl e \<and>
                    st' = st\<lparr>remote := appended pageId (Suc k),
                             calls := sent pageId (Suc k)\<rparr>)))"
proof -
  obtain chunks where
    1: "chunkBlocks_loop blocks 100 0 [] = Some ([] @ chunks)" and
    2: "concat chunks = drop 0 blocks" and
    3: "\<forall>c \<in> set (butlast chunks). length c = 100" and
    4: "\<forall>c \<in> set chunks. c \<noteq> [] \<and> length c \<le> 100"
    using chunkBlocks_loop_spec [of 100 blocks 0 "[]"] by auto
  have 5: "blocks \<noteq> [] \<longrightarrow> chunks \<noteq> []" using 2 by auto
  have 6: "chunkBlocks blocks NOTION_BLOCK_CHUNK_SIZE = Some chunks"
    using 1 by (simp add: chunkBlocks_def NOTION_BLOCK_CHUNK_SIZE_def)
  from 2 have 8: "concat chunks = blocks" by simp
  show ?thesis
    using 8 3 4 5 6
    by (intro exI [of _ chunks] conjI allI createSubpage_spec)
qed

text \<open>
  For 201 blocks: chunks of 100, 100 and 1 blocks; on the store that keeps the blocks
  of its pages, one creation and two appends, after which the new page holds the 201
  blocks.
\<close>

theorem chunkBlocks_createSubpage_witness:
  "\<exists>chunks. chunkBlocks (replicate 201 JNull) NOTION_BLOCK_CHUNK_SIZE = Some chunks \<and>
     chunks = [replicate 100 JNull, replicate 100 JNull, [JNull]] \<and>
     createSubpage block_store ''parent'' ''Title'' chunks
        \<lparr>remote = [], calls = [], files = (), validatedPageIds = []\<rparr> =
       (Inr ''page-0'',
        \<lparr>remote = [(''page-0'', replicate 201 JNull)],
         calls = [Pages_create ''parent'' ''Title'' (Some (replicate 100 JNull)),
                  Blocks_children_append ''page-0'' (replicate 100 JNull),
                  Blocks_children_append ''page-0'' [JNull]],
         files = (), validatedPageIds = []\<rparr>)"
proof -
  let ?st = "\<lparr>remote = [], calls = [], files = (), validatedPageIds = []\<rparr>
    :: ((string \<times> json list) list, unit) state"
  let ?c = "replicate 100 JNull"
  let ?chunks = "[?c, ?c, [JNull]]"
  let ?rest = "[?c, [JNull]]"
  let ?new = "pages_create block_store ''parent'' ''Title'' (Some ?c) (remote ?st)"
  let ?appended = "\<lambda>k. foldl (\<lambda>w c. snd (blocks_children_append block_store ''page-0'' c w))
                          (snd ?new) (take k ?rest)"
  let ?st' = "\<lparr>remote = [(''page-0'', replicate 201 JNull)],
         calls = [Pages_create ''parent'' ''Title'' (Some ?c),
                  Blocks_children_append ''page-0'' ?c,
                  Blocks_children_append ''page-0'' [JNull]],
         files = (), validatedPageIds = []\<rparr> :: ((string \<times> json list) list, unit) state"
  obtain chunks where
    c: "chunkBlocks (replicate 201 JNull) NOTION_BLOCK_CHUNK_SIZE = Some chunks" and
    sp: "\<forall>(notion :: (string \<times> json list) list NotionClient) parentPageId t
            (st :: ((string \<times> json list) list, unit) state).
         let first = (case chunks of [] \<Rightarrow> None | c # cs \<Rightarrow> Some c);
             rest = drop 1 chunks;
             new_page = pages_create notion parentPageId t first (remote st);
             appended = (\<lambda>pageId k. foldl (\<lambda>w c. snd (blocks_children_append notion pageId c w))
                                          (snd new_page) (take k rest));
             sent = (\<lambda>pageId k. calls st @ Pages_create parentPageId t first #
                                          map (Blocks_children_append pageId) (take k rest))
         in (\<forall>pageId st'.
               createSubpage notion parentPageId t chunks st = (Inr pageId, st') \<longleftrightarrow>
                 fst new_page = Inr pageId \<and>
                 (\<forall>k<length rest.
                     fst (blocks_children_append notion pageId (rest ! k) (appended pageId k)) =
                       Inr ()) \<and>
                 st' = st\<lparr>remote := appended pageId (length rest),
                          calls := sent pageId (length rest)\<rparr>) \<and>
            (\<forall>e st'.
               createSubpage notion parentPageId t chunks st = (Inl e, st') \<longleftrightarrow>
                 fst new_page = Inl e \<and>
                   st' = st\<lparr>remote := snd new_page,
                            calls := calls st @ [Pages_create parentPageId t first]\<rparr> \<or>
                 (\<exists>pageId k.
                    fst new_page = Inr pageId \<and> k < length rest \<and>
                    (\<forall>j<k. fst (blocks_children_append notion pageId (rest ! j)
                                   (appended pageId j)) = Inr ()) \<and>
                    fst (blocks_children_append notion pageId (rest ! k) (appended pageId k)) =
                      Inl e \<and>
                    st' = st\<lparr>remote := appended pageId (Suc k),
                             calls := sent pageId (Suc k)\<rparr>))"
    using chunkBlocks_createSubpage [of "replicate 201 JNull", where ?'w = "(string \<times> json list) list" and ?'f = unit]
    by (elim exE conjE)
  have e: "chunkBlocks (replicate 201 JNull) NOTION_BLOCK_CHUNK_SIZE = Some ?chunks"
    by code_simp
  with c have ch: "chunks = ?chunks" by simp
  have n: "fst ?new = Inr ''page-0''"
    by code_simp
  have a0: "fst (blocks_children_append block_store ''page-0'' (?rest ! 0) (?appended 0)) = Inr ()"
    by code_simp
  have a1: "fst (blocks_children_append block_store ''page-0'' (?rest ! 1) (?appended 1)) = Inr ()"
    by code_simp
  have al: "\<forall>k<length ?rest.
      fst (blocks_children_append block_store ''page-0'' (?rest ! k) (?appended k)) = Inr ()"
  proof (intro allI impI)
    fix k assume "k < length ?rest"
    then have "k = 0 \<or> k = 1" by auto
    then show "fst (blocks_children_append block_store ''page-0'' (?rest ! k) (?appended k)) = Inr ()"
      using a0 a1 by (elim disjE) (simp_all only:)
  qed
  have s: "?st' = ?st\<lparr>remote := ?appended (length ?rest),
                    calls := calls ?st @ Pages_create ''parent'' ''Title'' (Some ?c) #
                      map (Blocks_children_append ''page-0'') (take (length ?rest) ?rest)\<rparr>"
    by code_simp
  from sp [unfolded ch Let_def, THEN spec, THEN spec, THEN spec, THEN spec, THEN conjunct1,
           THEN spec, THEN spec, of block_store "''parent''" "''Title''" ?st "''page-0''" ?st']
  have "createSubpage block_store ''parent'' ''Title'' ?chunks ?st = (Inr ''page-0'', ?st')"
    using n al s by simp
  with c ch show ?thesis by simp
qed

section \<open>Path classification\<close>

lemma split_on_not_Nil: "split_on d s \<noteq> []"
  by (induction s) (auto split: list.splits)

lemma capitalize_words_length: "length (capitalize_words prev s) = length s"
  by (induction s arbitrary: prev) auto

lemma capitalize_words_nth:
  "i < length s \<Longrightarrow>
   capitalize_words prev s ! i =
     (if is_word (s ! i) \<and> \<not> (if i = 0 then prev else is_word (s ! (i - 1)))
      then to_upper (s ! i) else s ! i)"
proof (induction s arbitrary: prev i)
  case Nil
  then show ?case by simp
next
  case (Cons c cs)
  show ?case
  proof (cases i)
    case 0
    then show ?thesis by simp
  next
    case (Suc j)
    with Cons.prems have j: "j < length cs" by simp
    show ?thesis
      using Cons.IH [OF j, of "is_word c"] Suc by (cases j) auto
  qed
qed

lemma is_word_chars:
  "\<not> is_word CHR '' ''" "\<not> is_word CHR ''-''" "is_word CHR ''_''"
  by (simp_all add: is_word_def)

lemma to_upper_space: "to_upper CHR '' '' = CHR '' ''"
  by (simp add: to_upper_def)

lemma title_case_length: "length (title_case s) = length s"
  by (simp add: title_case_def dashes_to_spaces_def capitalize_words_length)

lemma title_case_nth:
  assumes "i < length s"
  shows "title_case s ! i =
     (if s ! i = CHR ''-'' \<or> s ! i = CHR ''_'' then CHR '' ''
      else if is_word (s ! i) \<and> (i = 0 \<or> \<not> is_word (s ! (i - 1)) \<or> s ! (i - 1) = CHR ''_'')
      then to_upper (s ! i) else s ! i)"
proof -
  let ?f = "\<lambda>c. if c = CHR ''-'' \<or> c = CHR ''_'' then CHR '' '' else c"
  have w: "is_word (?f c) = (is_word c \<and> c \<noteq> CHR ''_'')" for c
    by (simp add: is_word_chars)
  have i1: "0 < i \<Longrightarrow> map ?f s ! (i - 1) = ?f (s ! (i - 1))"
    using assms by simp
  have "title_case s ! i =
      (if is_word (?f (s ! i)) \<and> \<not> (if i = 0 then False else is_word (?f (s ! (i - 1))))
       then to_upper (?f (s ! i)) else ?f (s ! i))"
    unfolding title_case_def dashes_to_spaces_def
    using capitalize_words_nth [of i "map ?f s" False] assms i1
    by (cases "i = 0") simp_all
  then show ?thesis
    unfolding w by (auto simp: is_word_chars to_upper_space)
qed

lemma of_char_to_upper:
  "(of_char (to_upper c) :: nat) =
     (if 97 \<le> (of_char c :: nat) \<and> (of_char c :: nat) \<le> 122 then of_char c - 32 else of_char c)"
proof -
  have "(of_char c :: nat) < 256" by simp
  then show ?thesis
    by (auto simp: to_upper_def less_eq_char_def)
qed

lemma of_char_to_lower:
  "(of_char (to_lower c) :: nat) =
     (if (65 \<le> (of_char c :: nat) \<and> (of_char c :: nat) \<le> 90) \<or>
         (192 \<le> (of_char c :: nat) \<and> (of_char c :: nat) \<le> 222 \<and> (of_char c :: nat) \<noteq> 215)
      then of_char c + 32 else of_char c)"
proof -
  have "(of_char c :: nat) < 256" by simp
  then show ?thesis
    by (simp add: to_lower_def Let_def)
qed

lemma upper_lower_letter:
  assumes "65 \<le> u" "u \<le> (90::nat)"
  shows "to_upper c = char_of u \<longleftrightarrow> to_lower c = char_of (u + 32)"
proof -
  have "to_upper c = char_of u \<longleftrightarrow> (of_char (to_upper c) :: nat) = of_char (char_of u :: char)"
    by (metis of_char_eq_iff)
  also have "\<dots> \<longleftrightarrow> (of_char c :: nat) = u \<or> (of_char c :: nat) = u + 32"
    using assms unfolding of_char_to_upper by auto
  also have "\<dots> \<longleftrightarrow> (of_char (to_lower c) :: nat) = of_char (char_of (u + 32) :: char)"
    using assms unfolding of_char_to_lower by auto
  also have "\<dots> \<longleftrightarrow> to_lower c = char_of (u + 32)"
    by (metis of_char_eq_iff)
  finally show ?thesis .
qed

lemma letters:
  "CHR ''R'' = char_of (82::nat)" "CHR ''r'' = char_of (82 + 32 :: nat)"
  "CHR ''E'' = char_of (69::nat)" "CHR ''e'' = char_of (69 + 32 :: nat)"
  "CHR ''A'' = char_of (65::nat)" "CHR ''a'' = char_of (65 + 32 :: nat)"
  "CHR ''D'' = char_of (68::nat)" "CHR ''d'' = char_of (68 + 32 :: nat)"
  "CHR ''M'' = char_of (77::nat)" "CHR ''m'' = char_of (77 + 32 :: nat)"
  by code_simp+

lemma readme_case_insensitive:
  "toUpperCase seg = ''README'' \<longleftrightarrow> toLowerCase seg = ''readme''"
proof -
  have R: "to_upper c = CHR ''R'' \<longleftrightarrow> to_lower c = CHR ''r''" for c
    unfolding letters by (rule upper_lower_letter) simp_all
  have E: "to_upper c = CHR ''E'' \<longleftrightarrow> to_lower c = CHR ''e''" for c
    unfolding letters by (rule upper_lower_letter) simp_all
  have A: "to_upper c = CHR ''A'' \<longleftrightarrow> to_lower c = CHR ''a''" for c
    unfolding letters by (rule upper_lower_letter) simp_all
  have D: "to_upper c = CHR ''D'' \<longleftrightarrow> to_lower c = CHR ''d''" for c
    unfolding letters by (rule upper_lower_letter) simp_all
  have M: "to_upper c = CHR ''M'' \<longleftrightarrow> to_lower c = CHR ''m''" for c
    unfolding letters by (rule upper_lower_letter) simp_all
  show ?thesis
    unfolding toUpperCase_def toLowerCase_def
    by (auto simp: map_eq_Cons_conv R E A D M)
qed

lemma parent_segment:
  "2 \<le> length parts \<Longrightarrow> parts ! (length parts - 2) = last (butlast parts)"
proof -
  assume a: "2 \<le> length parts"
  then have "length (butlast parts) \<noteq> 0" by simp
  then have "butlast parts \<noteq> []" by (simp del: length_butlast)
  then have "last (butlast parts) = butlast parts ! (length (butlast parts) - 1)"
    by (rule last_conv_nth)
  also have "\<dots> = butlast parts ! (length parts - 2)"
    by (simp add: numeral_2_eq_2)
  also have "\<dots> = parts ! (length parts - 2)"
    using a by (simp add: nth_butlast)
  finally show ?thesis by simp
qed

lemma parseRelPath_general:
  "docTitle (parseRelPath p) =
     (if toLowerCase (last (split_on CHR ''/'' (strip_md p))) = ''readme''
      then (if 2 \<le> length (split_on CHR ''/'' (strip_md p)) \<and>
               last (butlast (split_on CHR ''/'' (strip_md p))) \<noteq> []
            then trim (title_case (last (butlast (split_on CHR ''/'' (strip_md p)))))
            else ''README'')
      else trim (title_case (last (split_on CHR ''/'' (strip_md p))))) \<and>
   folderTitle (parseRelPath p) =
     (if 2 \<le> length (split_on CHR ''/'' (strip_md p))
      then Some (trim (title_case (hd (split_on CHR ''/'' (strip_md p)))))
      else None)"
proof -
  let ?parts = "split_on CHR ''/'' (strip_md p)"
  have d: "docTitle (parseRelPath p) = trim (pathToDisplayTitle p)"
    by (simp add: parseRelPath_def Let_def normalizeTitle_def)
  have f: "folderTitle (parseRelPath p) =
      (if 2 \<le> length ?parts then Some (trim (title_case (hd ?parts))) else None)"
    by (auto simp: parseRelPath_def Let_def normalizeTitle_def)
  have t: "trim ''README'' = ''README''"
    by code_simp
  have "trim (pathToDisplayTitle p) =
     (if toLowerCase (last ?parts) = ''readme''
      then (if 2 \<le> length ?parts \<and> last (butlast ?parts) \<noteq> []
            then trim (title_case (last (butlast ?parts)))
            else ''README'')
      else trim (title_case (last ?parts)))"
    unfolding pathToDisplayTitle_def Let_def readme_case_insensitive
    using parent_segment [of ?parts] t by auto
  with d f show ?thesis by simp
qed

text \<open>
  Claim C6, as amended. The three paths of the specification are classified as it says.
  In general, with the path split at the slashes after its extension \<^verbatim>\<open>.md\<close> (in any
  case) is removed: a last segment equal to \<^verbatim>\<open>readme\<close> in any case takes its title from
  the name of the directory that holds the file, title-cased and trimmed, and the title
  is the fixed string \<^verbatim>\<open>README\<close> when there is no such directory or its name is empty;
  any other last segment gives its own title-cased, trimmed name. The folder title is
  the title-cased, trimmed first segment of a nested path and absent for a path with one
  segment. Title-casing keeps the length: a dash or underscore becomes a space, a letter
  or digit at the start or after a character that is not a letter or digit is
  upper-cased, every other character stays.
\<close>

theorem parseRelPath_titles:
  "docTitle (parseRelPath ''guides/setup.md'') = ''Setup'' \<and>
   folderTitle (parseRelPath ''guides/setup.md'') = Some ''Guides'' \<and>
   docTitle (parseRelPath ''guides/README.md'') = ''Guides'' \<and>
   folderTitle (parseRelPath ''guides/README.md'') = Some ''Guides'' \<and>
   docTitle (parseRelPath ''intro.md'') = ''Intro'' \<and>
   folderTitle (parseRelPath ''intro.md'') = None \<and>
   (\<forall>p. docTitle (parseRelPath p) =
          (if toLowerCase (last (split_on CHR ''/'' (strip_md p))) = ''readme''
           then (if 2 \<le> length (split_on CHR ''/'' (strip_md p)) \<and>
                    last (butlast (split_on CHR ''/'' (strip_md p))) \<noteq> []
                 then trim (title_case (last (butlast (split_on CHR ''/'' (strip_md p)))))
                 else ''README'')
           else trim (title_case (last (split_on CHR ''/'' (strip_md p))))) \<and>
        folderTitle (parseRelPath p) =
          (if 2 \<le> length (split_on CHR ''/'' (strip_md p))
           then Some (trim (title_case (hd (split_on CHR ''/'' (strip_md p)))))
           else None)) \<and>
   (\<forall>s i. i < length s \<longrightarrow>
      length (title_case s) = length s \<and>
      title_case s ! i =
        (if s ! i = CHR ''-'' \<or> s ! i = CHR ''_'' then CHR '' ''
         else if is_word (s ! i) \<and>
                 (i = 0 \<or> \<not> is_word (s ! (i - 1)) \<or> s ! (i - 1) = CHR ''_'')
         then to_upper (s ! i) else s ! i))"
proof -
  have e1: "docTitle (parseRelPath ''guides/setup.md'') = ''Setup''"
    and e2: "folderTitle (parseRelPath ''guides/setup.md'') = Some ''Guides''"
    and e3: "docTitle (parseRelPath ''guides/README.md'') = ''Guides''"
    and e4: "folderTitle (parseRelPath ''guides/README.md'') = Some ''Guides''"
    and e5: "docTitle (parseRelPath ''intro.md'') = ''Intro''"
    and e6: "folderTitle (parseRelPath ''intro.md'') = None"
    by code_simp+
  have g: "\<forall>p. docTitle (parseRelPath p) =
          (if toLowerCase (last (split_on CHR ''/'' (strip_md p))) = ''readme''
           then (if 2 \<le> length (split_on CHR ''/'' (strip_md p)) \<and>
                    last (butlast (split_on CHR ''/'' (strip_md p))) \<noteq> []
                 then trim (title_case (last (butlast (split_on CHR ''/'' (strip_md p)))))
                 else ''README'')
           else trim (title_case (last (split_on CHR ''/'' (strip_md p))))) \<and>
        folderTitle (parseRelPath p) =
          (if 2 \<le> length (split_on CHR ''/'' (strip_md p))
           then Some (trim (title_case (hd (split_on CHR ''/'' (strip_md p)))))
           else None)"
    using parseRelPath_general by blast
  have h: "\<forall>s i. i < length s \<longrightarrow>
      length (title_case s) = length s \<and>
      title_case s ! i =
        (if s ! i = CHR ''-'' \<or> s ! i = CHR ''_'' then CHR '' ''
         else if is_word (s ! i) \<and>
                 (i = 0 \<or> \<not> is_word (s ! (i - 1)) \<or> s ! (i - 1) = CHR ''_'')
         then to_upper (s ! i) else s ! i)"
    using title_case_length title_case_nth by blast
  show ?thesis
    by (intro conjI e1 e2 e3 e4 e5 e6 g h)
qed

text \<open>
  A nested \<^verbatim>\<open>ReadMe.MD\<close> is titled after its directory, the folder is the first segment.
\<close>

theorem parseRelPath_titles_witness:
  "docTitle (parseRelPath ''docs-site/api_v2/ReadMe.MD'') = ''Api V2'' \<and>
   folderTitle (parseRelPath ''docs-site/api_v2/ReadMe.MD'') = Some ''Docs Site'' \<and>
   title_case ''api_v2'' ! 4 = CHR ''V''"
proof -
  let ?p = "''docs-site/api_v2/ReadMe.MD''"
  have parts: "split_on CHR ''/'' (strip_md ?p) = [''docs-site'', ''api_v2'', ''ReadMe'']"
    by code_simp
  have low: "toLowerCase ''ReadMe'' = ''readme''"
    by code_simp
  have t1: "trim (title_case ''api_v2'') = ''Api V2''"
    and t2: "trim (title_case ''docs-site'') = ''Docs Site''"
    by code_simp+
  have c: "''api_v2'' ! 4 = CHR ''v''" "''api_v2'' ! (4 - 1) = CHR ''_''"
      "to_upper CHR ''v'' = CHR ''V''" "is_word CHR ''v'' = True" "(4::nat) < length ''api_v2''"
    by code_simp+
  have g: "docTitle (parseRelPath ?p) =
          (if toLowerCase (last (split_on CHR ''/'' (strip_md ?p))) = ''readme''
           then (if 2 \<le> length (split_on CHR ''/'' (strip_md ?p)) \<and>
                    last (butlast (split_on CHR ''/'' (strip_md ?p))) \<noteq> []
                 then trim (title_case (last (butlast (split_on CHR ''/'' (strip_md ?p)))))
                 else ''README'')
           else trim (title_case (last (split_on CHR ''/'' (strip_md ?p))))) \<and>
        folderTitle (parseRelPath ?p) =
          (if 2 \<le> length (split_on CHR ''/'' (strip_md ?p))
           then Some (trim (title_case (hd (split_on CHR ''/'' (strip_md ?p)))))
           else None)"
    using parseRelPath_titles by blast
  have n: "title_case ''api_v2'' ! 4 =
        (if ''api_v2'' ! 4 = CHR ''-'' \<or> ''api_v2'' ! 4 = CHR ''_'' then CHR '' ''
         else if is_word (''api_v2'' ! 4) \<and>
                 ((4::nat) = 0 \<or> \<not> is_word (''api_v2'' ! (4 - 1)) \<or> ''api_v2'' ! (4 - 1) = CHR ''_'')
         then to_upper (''api_v2'' ! 4) else ''api_v2'' ! 4)"
    using parseRelPath_titles c(5) by blast
  have "docTitle (parseRelPath ?p) = ''Api V2''"
    and "folderTitle (parseRelPath ?p) = Some ''Docs Site''"
    using g unfolding parts by (simp_all add: low t1 t2)
  moreover have "title_case ''api_v2'' ! 4 = CHR ''V''"
    unfolding n c by simp
  ultimately show ?thesis by simp
qed

text \<open>
  The claim as stated, that at the root the title falls back to the segment itself,
  fails for \<^verbatim>\<open>readme.md\<close>: the segment is \<^verbatim>\<open>readme\<close>, the title is \<^verbatim>\<open>README\<close>.
\<close>

theorem parseRelPath_titles_counterexample:
  "toLowerCase (last (split_on CHR ''/'' (strip_md ''readme.md''))) = ''readme'' \<and>
   length (split_on CHR ''/'' (strip_md ''readme.md'')) = 1 \<and>
   last (split_on CHR ''/'' (strip_md ''readme.md'')) = ''readme'' \<and>
   docTitle (parseRelPath ''readme.md'') = ''README'' \<and>
   docTitle (parseRelPath ''readme.md'') \<noteq> last (split_on CHR ''/'' (strip_md ''readme.md''))"
  by code_simp

section \<open>Diff collaborator\<close>

lemma set_add_foldl:
  "set (foldl (\<lambda>acc x. set_add x acc) acc xs) = set acc \<union> set xs \<and>
   (distinct acc \<longrightarrow> distinct (foldl (\<lambda>acc x. set_add x acc) acc xs))"
  by (induction xs arbitrary: acc) (auto simp: set_add_def)

lemma set_new_Set: "set (new_Set xs) = set xs"
  using set_add_foldl [of "[]" xs] by (simp add: new_Set_def)

lemma distinct_new_Set: "distinct (new_Set xs)"
  using set_add_foldl [of "[]" xs] by (simp add: new_Set_def)

lemma startsWith_not_butlast:
  assumes "startsWith l prefix" "prefix \<noteq> []"
  shows "l \<noteq> butlast prefix"
proof
  assume "l = butlast prefix"
  then have "length l < length prefix" using assms(2) by simp
  moreover have "length (take (length prefix) l) = length prefix"
    using assms(1) unfolding startsWith_def by simp
  ultimately show False by simp
qed

lemma changed_loop:
  assumes "prefix \<noteq> []"
  shows "foldl (\<lambda>acc line.
            let normalized = backslashes_to_slashes line
            in if \<not> endsWith (toLowerCase normalized) ''.md'' then acc
               else if normalized = prefix \<or> normalized = butlast prefix then acc
               else if startsWith normalized prefix
               then acc @ [drop (length prefix) normalized]
               else acc) acc lines =
         acc @ map (drop (length prefix))
           (filter (\<lambda>l. endsWith (toLowerCase l) ''.md'' \<and> startsWith l prefix \<and> l \<noteq> prefix)
              (map backslashes_to_slashes lines))"
proof -
  define step where "step = (\<lambda>acc line.
            let normalized = backslashes_to_slashes line
            in if \<not> endsWith (toLowerCase normalized) ''.md'' then acc
               else if normalized = prefix \<or> normalized = butlast prefix then acc
               else if startsWith normalized prefix
               then acc @ [drop (length prefix) normalized]
               else acc)"
  define ok where
    "ok = (\<lambda>l. endsWith (toLowerCase l) ''.md'' \<and> startsWith l prefix \<and> l \<noteq> prefix)"
  have st: "step acc line =
      (if ok (backslashes_to_slashes line)
       then acc @ [drop (length prefix) (backslashes_to_slashes line)] else acc)" for acc line
    using startsWith_not_butlast [of "backslashes_to_slashes line" prefix] assms
    unfolding step_def ok_def Let_def by auto
  have "foldl step acc lines =
        acc @ map (drop (length prefix)) (filter ok (map backslashes_to_slashes lines))"
  proof (induction lines arbitrary: acc)
    case Nil
    then show ?case by simp
  next
    case (Cons line lines)
    show ?case
      by (simp add: Cons.IH st [of acc line])
  qed
  then show ?thesis unfolding step_def ok_def .
qed

lemma trim_id_iff: "trim l = l \<longleftrightarrow> (l = [] \<or> (\<not> is_space (hd l) \<and> \<not> is_space (last l)))"
proof (cases "l = []")
  case True
  then show ?thesis by (simp add: trim_def)
next
  case False
  show ?thesis
  proof
    assume t: "trim l = l"
    have h: "\<not> is_space (hd l)"
    proof
      assume "is_space (hd l)"
      then have "length (dropWhile is_space l) < length l"
        using False by (cases l) (auto simp: less_Suc_eq_le length_dropWhile_le)
      moreover have "length (trim l) \<le> length (dropWhile is_space l)"
        unfolding trim_def
        using length_dropWhile_le [of is_space "rev (dropWhile is_space l)"] by simp
      ultimately show False using t by simp
    qed
    then have d: "dropWhile is_space l = l" using False by (cases l) auto
    have "\<not> is_space (last l)"
    proof
      assume "is_space (last l)"
      then have "is_space (hd (rev l))" using False by (simp add: hd_rev)
      then have "length (dropWhile is_space (rev l)) < length (rev l)"
        using False by (cases "rev l") (auto simp: less_Suc_eq_le length_dropWhile_le)
      then have "length (trim l) < length l"
        unfolding trim_def d by simp
      with t show False by simp
    qed
    with h False show "l = [] \<or> (\<not> is_space (hd l) \<and> \<not> is_space (last l))" by simp
  next
    assume "l = [] \<or> (\<not> is_space (hd l) \<and> \<not> is_space (last l))"
    with False have h: "\<not> is_space (hd l)" and la: "\<not> is_space (last l)" by auto
    from h False have d: "dropWhile is_space l = l" by (cases l) auto
    from la False have "\<not> is_space (hd (rev l))" by (simp add: hd_rev)
    with False have "dropWhile is_space (rev l) = rev l" by (cases "rev l") auto
    then show "trim l = l" unfolding trim_def d by simp
  qed
qed

lemma backslashes_id: "CHR 0x5C \<notin> set l \<Longrightarrow> backslashes_to_slashes l = l"
  unfolding backslashes_to_slashes_def by (induction l) auto

lemma to_lower_md:
  "to_lower c = CHR ''.'' \<longleftrightarrow> c = CHR ''.''"
  "to_lower c = CHR ''m'' \<longleftrightarrow> c = CHR ''m'' \<or> c = CHR ''M''"
  "to_lower c = CHR ''d'' \<longleftrightarrow> c = CHR ''d'' \<or> c = CHR ''D''"
proof -
  have e: "x = y \<longleftrightarrow> (of_char x :: nat) = of_char y" for x y :: char
    by simp
  show "to_lower c = CHR ''.'' \<longleftrightarrow> c = CHR ''.''"
    "to_lower c = CHR ''m'' \<longleftrightarrow> c = CHR ''m'' \<or> c = CHR ''M''"
    "to_lower c = CHR ''d'' \<longleftrightarrow> c = CHR ''d'' \<or> c = CHR ''D''"
    unfolding e of_char_to_lower by auto
qed

lemma endsWith_md:
  "endsWith (toLowerCase l) ''.md'' \<longleftrightarrow>
   (\<exists>pre a b. l = pre @ [CHR ''.'', a, b] \<and> (a = CHR ''m'' \<or> a = CHR ''M'') \<and>
      (b = CHR ''d'' \<or> b = CHR ''D''))"
proof
  assume a: "endsWith (toLowerCase l) ''.md''"
  then have len: "3 \<le> length l" and d: "drop (length l - 3) (map to_lower l) = ''.md''"
    by (auto simp: endsWith_def toLowerCase_def numeral_3_eq_3)
  define pre where "pre = take (length l - 3) l"
  define suf where "suf = drop (length l - 3) l"
  have l: "l = pre @ suf" by (simp add: pre_def suf_def)
  from d have "map to_lower suf = ''.md''" by (simp add: suf_def drop_map)
  then obtain x a b where "suf = [x, a, b]" "to_lower x = CHR ''.''" "to_lower a = CHR ''m''"
    "to_lower b = CHR ''d''"
    by (auto simp: map_eq_Cons_conv)
  with l show "\<exists>pre a b. l = pre @ [CHR ''.'', a, b] \<and> (a = CHR ''m'' \<or> a = CHR ''M'') \<and>
      (b = CHR ''d'' \<or> b = CHR ''D'')"
    by (auto simp: to_lower_md)
next
  assume "\<exists>pre a b. l = pre @ [CHR ''.'', a, b] \<and> (a = CHR ''m'' \<or> a = CHR ''M'') \<and>
      (b = CHR ''d'' \<or> b = CHR ''D'')"
  then obtain pre a b where l: "l = pre @ [CHR ''.'', a, b]"
    and ab: "to_lower a = CHR ''m''" "to_lower b = CHR ''d''"
    by (auto simp: to_lower_md)
  have "to_lower CHR ''.'' = CHR ''.''" by (simp add: to_lower_md)
  with l ab show "endsWith (toLowerCase l) ''.md''"
    by (simp add: endsWith_def toLowerCase_def)
qed

lemma getChangedMdPaths_ok:
  assumes ok: "execSync (''git diff --name-only '' @ baseRef @ '' '' @ headRef) repoRoot = Inr out"
    and p: "prefix = (if endsWith docsPrefix ''/'' then docsPrefix else docsPrefix @ ''/'')"
  shows "getChangedMdPaths execSync repoRoot docsPrefix baseRef headRef =
     Inr (Some (new_Set (map (drop (length prefix))
       (filter (\<lambda>l. endsWith (toLowerCase l) ''.md'' \<and> startsWith l prefix \<and> l \<noteq> prefix)
          (map backslashes_to_slashes
             (filter (\<lambda>s. s \<noteq> []) (map trim (split_lines out))))))))"
proof -
  have ne: "prefix \<noteq> []"
    unfolding p by (auto simp: endsWith_def)
  have "getChangedMdPaths execSync repoRoot docsPrefix baseRef headRef =
     Inr (Some (new_Set (foldl (\<lambda>acc line.
            let normalized = backslashes_to_slashes line
            in if \<not> endsWith (toLowerCase normalized) ''.md'' then acc
               else if normalized = prefix \<or> normalized = butlast prefix then acc
               else if startsWith normalized prefix
               then acc @ [drop (length prefix) normalized]
               else acc) [] (filter (\<lambda>s. s \<noteq> []) (map trim (split_lines out))))))"
    unfolding getChangedMdPaths_def ok p by (simp only: Let_def sum.case)
  then show ?thesis
    unfolding changed_loop [OF ne] by simp
qed

text \<open>
  Claim C8. With \<open>prefix\<close> the docs prefix with its slash at the end: when the diff
  command succeeds, \<^verbatim>\<open>getChangedMdPaths\<close> returns a list without repetition whose
  elements are exactly the paths, the prefix stripped, of the lines of the output
  (trimmed, the empty ones left out, backslashes read as slashes) that end in \<^verbatim>\<open>.md\<close> in
  any case, start with the prefix and are not the prefix itself; where the lines are
  already as git prints them (no white space around them, no backslash) these are the
  lines of the output themselves. When the command fails with status 128 the function
  returns the null sentinel, and any other failure is thrown on to the caller. Ending
  in \<^verbatim>\<open>.md\<close> in any case is: the last three characters are a dot, \<^verbatim>\<open>m\<close> or \<^verbatim>\<open>M\<close>, and
  \<^verbatim>\<open>d\<close> or \<^verbatim>\<open>D\<close>.
\<close>

theorem getChangedMdPaths_contract:
  "(\<forall>out. execSync (''git diff --name-only '' @ baseRef @ '' '' @ headRef) repoRoot = Inr out \<longrightarrow>
      (\<exists>ps. getChangedMdPaths execSync repoRoot docsPrefix baseRef headRef = Inr (Some ps) \<and>
         distinct ps \<and>
         set ps =
           drop (length (if endsWith docsPrefix ''/'' then docsPrefix else docsPrefix @ ''/'')) `
             {l \<in> set (map backslashes_to_slashes
                         (filter (\<lambda>s. s \<noteq> []) (map trim (split_lines out)))).
                endsWith (toLowerCase l) ''.md'' \<and>
                startsWith l (if endsWith docsPrefix ''/'' then docsPrefix else docsPrefix @ ''/'') \<and>
                l \<noteq> (if endsWith docsPrefix ''/'' then docsPrefix else docsPrefix @ ''/'')} \<and>
         ((\<forall>l \<in> set (split_lines out). trim l = l \<and> CHR 0x5C \<notin> set l) \<longrightarrow>
          set ps =
            drop (length (if endsWith docsPrefix ''/'' then docsPrefix else docsPrefix @ ''/'')) `
              {l \<in> set (split_lines out).
                 endsWith (toLowerCase l) ''.md'' \<and>
                 startsWith l (if endsWith docsPrefix ''/'' then docsPrefix else docsPrefix @ ''/'') \<and>
                 l \<noteq> (if endsWith docsPrefix ''/'' then docsPrefix else docsPrefix @ ''/'')}))) \<and>
   (\<forall>err. execSync (''git diff --name-only '' @ baseRef @ '' '' @ headRef) repoRoot = Inl err \<longrightarrow>
      getChangedMdPaths execSync repoRoot docsPrefix baseRef headRef =
        (if err_status err = Some 128 then Inr None else Inl err)) \<and>
   (\<forall>l. endsWith (toLowerCase l) ''.md'' \<longleftrightarrow>
      (\<exists>pre a b. l = pre @ [CHR ''.'', a, b] \<and> (a = CHR ''m'' \<or> a = CHR ''M'') \<and>
         (b = CHR ''d'' \<or> b = CHR ''D'')))"
proof (intro conjI allI impI)
  fix out
  assume ok: "execSync (''git diff --name-only '' @ baseRef @ '' '' @ headRef) repoRoot = Inr out"
  define prefix where "prefix = (if endsWith docsPrefix ''/'' then docsPrefix else docsPrefix @ ''/'')"
  define good where
    "good = (\<lambda>l. endsWith (toLowerCase l) ''.md'' \<and> startsWith l prefix \<and> l \<noteq> prefix)"
  define lines where
    "lines = map backslashes_to_slashes (filter (\<lambda>s. s \<noteq> []) (map trim (split_lines out)))"
  define ps where "ps = new_Set (map (drop (length prefix)) (filter good lines))"
  have r: "getChangedMdPaths execSync repoRoot docsPrefix baseRef headRef = Inr (Some ps)"
    unfolding ps_def good_def lines_def
    by (rule getChangedMdPaths_ok [where execSync = execSync, OF ok prefix_def])
  have d: "distinct ps"
    unfolding ps_def by (rule distinct_new_Set)
  have s: "set ps = drop (length prefix) ` {l \<in> set lines. good l}"
    unfolding ps_def set_new_Set by auto
  have raw: "set ps = drop (length prefix) ` {l \<in> set (split_lines out). good l}"
    if nf: "\<forall>l \<in> set (split_lines out). trim l = l \<and> CHR 0x5C \<notin> set l"
  proof -
    have "map trim (split_lines out) = split_lines out"
      using nf by (simp add: map_idI)
    moreover have "map backslashes_to_slashes (filter (\<lambda>s. s \<noteq> []) (split_lines out)) =
        filter (\<lambda>s. s \<noteq> []) (split_lines out)"
      using nf by (intro map_idI) (simp add: backslashes_id)
    ultimately have "lines = filter (\<lambda>s. s \<noteq> []) (split_lines out)"
      unfolding lines_def by simp
    moreover have "\<not> good []"
      by (simp add: good_def endsWith_def toLowerCase_def)
    ultimately have "{l \<in> set lines. good l} = {l \<in> set (split_lines out). good l}"
      by auto
    with s show ?thesis by simp
  qed
  show "\<exists>ps. getChangedMdPaths execSync repoRoot docsPrefix baseRef headRef = Inr (Some ps) \<and>
         distinct ps \<and>
         set ps =
           drop (length (if endsWith docsPrefix ''/'' then docsPrefix else docsPrefix @ ''/'')) `
             {l \<in> set (map backslashes_to_slashes
                         (filter (\<lambda>s. s \<noteq> []) (map trim (split_lines out)))).
                endsWith (toLowerCase l) ''.md'' \<and>
                startsWith l (if endsWith docsPrefix ''/'' then docsPrefix else docsPrefix @ ''/'') \<and>
                l \<noteq> (if endsWith docsPrefix ''/'' then docsPrefix else docsPrefix @ ''/'')} \<and>
         ((\<forall>l \<in> set (split_lines out). trim l = l \<and> CHR 0x5C \<notin> set l) \<longrightarrow>
          set ps =
            drop (length (if endsWith docsPrefix ''/'' then docsPrefix else docsPrefix @ ''/'')) `
              {l \<in> set (split_lines out).
                 endsWith (toLowerCase l) ''.md'' \<and>
                 startsWith l (if endsWith docsPrefix ''/'' then docsPrefix else docsPrefix @ ''/'') \<and>
                 l \<noteq> (if endsWith docsPrefix ''/'' then docsPrefix else docsPrefix @ ''/'')})"
    using r d s raw unfolding good_def lines_def prefix_def
    by (intro exI [of _ ps] conjI impI)
next
  fix err
  assume "execSync (''git diff --name-only '' @ baseRef @ '' '' @ headRef) repoRoot = Inl err"
  then show "getChangedMdPaths execSync repoRoot docsPrefix baseRef headRef =
        (if err_status err = Some 128 then Inr None else Inl err)"
    by (simp add: getChangedMdPaths_def Let_def)
next
  fix l
  show "endsWith (toLowerCase l) ''.md'' \<longleftrightarrow>
      (\<exists>pre a b. l = pre @ [CHR ''.'', a, b] \<and> (a = CHR ''m'' \<or> a = CHR ''M'') \<and>
         (b = CHR ''d'' \<or> b = CHR ''D''))"
    by (rule endsWith_md)
qed

text \<open>
  A diff with a repeated path, a path outside the docs directory and a file that is not
  Markdown; a failure with status 128; a failure with status 1.
\<close>

theorem getChangedMdPaths_contract_witness:
  "getChangedMdPaths
     (\<lambda>cmd cwd. if cmd = ''git diff --name-only abc def''
        then Inr (''docs/a.md'' @ [CR, LF] @ ''docs/guides/B.MD'' @ [LF] @ ''README.md'' @ [LF] @
                  ''docs/a.md'' @ [LF] @ ''docs/img.png'' @ [LF])
        else Inl (Thrown ''Error'' (Some 1) None None))
     ''/repo'' ''docs'' ''abc'' ''def'' = Inr (Some [''a.md'', ''guides/B.MD'']) \<and>
   getChangedMdPaths (\<lambda>cmd cwd. Inl (Thrown ''Error'' (Some 128) None None))
     ''/repo'' ''docs'' ''abc'' ''def'' = Inr None \<and>
   getChangedMdPaths (\<lambda>cmd cwd. Inl (Thrown ''Error'' (Some 1) None None))
     ''/repo'' ''docs'' ''abc'' ''def'' = Inl (Thrown ''Error'' (Some 1) None None)"
proof -
  let ?out = "''docs/a.md'' @ [CR, LF] @ ''docs/guides/B.MD'' @ [LF] @ ''README.md'' @ [LF] @
                  ''docs/a.md'' @ [LF] @ ''docs/img.png'' @ [LF]"
  let ?exec = "\<lambda>cmd cwd :: string. if cmd = ''git diff --name-only abc def''
        then Inr ?out else Inl (Thrown ''Error'' (Some 1) None None)"
  let ?e128 = "Thrown ''Error'' (Some 128) None None"
  let ?e1 = "Thrown ''Error'' (Some 1) None None"
  have run: "?exec (''git diff --name-only '' @ ''abc'' @ '' '' @ ''def'') ''/repo'' = Inr ?out"
    by simp
  have "\<exists>ps. getChangedMdPaths ?exec ''/repo'' ''docs'' ''abc'' ''def'' = Inr (Some ps) \<and>
      distinct ps"
  proof -
    note ex = getChangedMdPaths_contract
      [of ?exec "''abc''" "''def''" "''/repo''" "''docs''", THEN conjunct1, THEN spec, THEN mp, OF run]
    then obtain ps where
      "getChangedMdPaths ?exec ''/repo'' ''docs'' ''abc'' ''def'' = Inr (Some ps) \<and> distinct ps"
      by (elim exE conjE) (intro that conjI)
    then show ?thesis ..
  qed
  have e: "getChangedMdPaths ?exec ''/repo'' ''docs'' ''abc'' ''def'' =
      Inr (Some [''a.md'', ''guides/B.MD''])"
    by code_simp
  have r128: "(\<lambda>cmd cwd :: string. Inl ?e128 :: js_error + string)
      (''git diff --name-only '' @ ''abc'' @ '' '' @ ''def'') ''/repo'' = Inl ?e128"
    by (rule refl)
  have r1: "(\<lambda>cmd cwd :: string. Inl ?e1 :: js_error + string)
      (''git diff --name-only '' @ ''abc'' @ '' '' @ ''def'') ''/repo'' = Inl ?e1"
    by (rule refl)
  have f1: "getChangedMdPaths (\<lambda>cmd cwd. Inl ?e128) ''/repo'' ''docs'' ''abc'' ''def'' =
      (if err_status ?e128 = Some 128 then Inr None else Inl ?e128)"
    by (rule getChangedMdPaths_contract
      [of "\<lambda>cmd cwd. Inl ?e128" "''abc''" "''def''" "''/repo''" "''docs''",
        THEN conjunct2, THEN conjunct1, THEN spec, THEN mp, OF r128])
  have f2: "getChangedMdPaths (\<lambda>cmd cwd. Inl ?e1) ''/repo'' ''docs'' ''abc'' ''def'' =
      (if err_status ?e1 = Some 128 then Inr None else Inl ?e1)"
    by (rule getChangedMdPaths_contract
      [of "\<lambda>cmd cwd. Inl ?e1" "''abc''" "''def''" "''/repo''" "''docs''",
        THEN conjunct2, THEN conjunct1, THEN spec, THEN mp, OF r1])
  from f1 have g1: "getChangedMdPaths (\<lambda>cmd cwd. Inl ?e128) ''/repo'' ''docs'' ''abc'' ''def'' = Inr None"
    by simp
  from f2 have g2: "getChangedMdPaths (\<lambda>cmd cwd. Inl ?e1) ''/repo'' ''docs'' ''abc'' ''def'' = Inl ?e1"
    by simp
  show ?thesis
    by (intro conjI e g1 g2)
qed

section \<open>Objects as lists of properties\<close>

lemma map_of_insort_key:
  "map_of (insort_key (\<lambda>kv. h (fst kv)) x xs) k =
     (if fst x = k then Some (snd x) else map_of xs k)"
proof (induction xs)
  case Nil
  then show ?case by (cases x) auto
next
  case (Cons y ys)
  then show ?case by (cases x; cases y) auto
qed

lemma map_of_sort_key: "map_of (sort_key (\<lambda>kv. h (fst kv)) xs) k = map_of xs k"
proof (induction xs)
  case Nil
  then show ?case by simp
next
  case (Cons x xs)
  then show ?case by (cases x) (simp add: map_of_insort_key)
qed

lemma map_of_filter_key:
  "map_of (filter (\<lambda>kv. P (fst kv)) xs) k = (if P k then map_of xs k else None)"
  by (induction xs) auto

lemma map_of_own_entries: "map_of (own_entries obj) k = map_of obj k"
proof -
  have "map_of (own_entries obj) k =
      (case map_of (filter (\<lambda>kv. is_array_index (fst kv)) obj) k of
         None \<Rightarrow> map_of (filter (\<lambda>kv. \<not> is_array_index (fst kv)) obj) k
       | Some v \<Rightarrow> Some v)"
    unfolding own_entries_def by (simp add: map_of_sort_key map_add_def)
  then show ?thesis
    using map_of_filter_key [of is_array_index obj k]
      map_of_filter_key [of "\<lambda>k. \<not> is_array_index k" obj k]
    by (auto split: option.splits if_splits)
qed

lemma set_own_entries: "set (own_entries obj) = set obj"
  unfolding own_entries_def by auto

lemma length_own_entries: "length (own_entries obj) = length obj"
  unfolding own_entries_def by (simp add: sum_length_filter_compl)

lemma distinct_own_entries:
  assumes "distinct (map fst obj)"
  shows "distinct (map fst (own_entries obj))"
proof -
  have "distinct obj" using assms by (rule distinct_map [THEN iffD1, THEN conjunct1])
  then have "distinct (own_entries obj)"
    unfolding own_entries_def by auto
  moreover have "inj_on fst (set obj)"
    using assms by (simp add: distinct_map)
  ultimately show ?thesis
    by (simp add: distinct_map set_own_entries)
qed

section \<open>Content sanitation\<close>

lemma valid_url_truthy:
  "isValidNotionUrl (Some v) \<Longrightarrow> truthy (Some v) \<and> (\<exists>u. v = JStr u)"
  by (cases v) (auto simp: isValidNotionUrl_def Let_def startsWith_def trim_def)

lemma sanitize_item_text:
  assumes "map_of fs ''type'' = Some (JStr ''text'')" and "map_of fs ''text'' = Some t"
    and "truthy (Some t)"
  shows "sanitize_item (JObj fs) =
     Inr (JObj [(''type'', JStr ''text''),
                (''text'',
                 JObj ((''content'',
                        (case get_prop t ''content'' of
                           None \<Rightarrow> JStr [] | Some JNull \<Rightarrow> JStr [] | Some c \<Rightarrow> c)) #
                       (case get_prop t ''link'' of
                          None \<Rightarrow> []
                        | Some l \<Rightarrow>
                            (case get_prop l ''url'' of
                               None \<Rightarrow> []
                             | Some u \<Rightarrow>
                                 if isValidNotionUrl (Some u)
                                 then [(''link'', JObj [(''url'', u)])] else []))))])"
  using assms valid_url_truthy
  by (auto simp: sanitize_item_def Let_def split: option.splits)

lemma sanitize_item_pass:
  assumes "item \<noteq> JNull"
    and "get_prop item ''type'' \<noteq> Some (JStr ''text'') \<or> \<not> truthy (get_prop item ''text'')"
  shows "sanitize_item item = Inr item"
  using assms by (auto simp: sanitize_item_def)

lemma sanitizeRichText_map:
  "sanitizeRichText items = Inr outs \<longleftrightarrow>
   length outs = length items \<and> (\<forall>i < length items. sanitize_item (items ! i) = Inr (outs ! i))"
proof (induction items arbitrary: outs)
  case Nil
  then show ?case by auto
next
  case (Cons item items)
  show ?case
  proof (cases outs)
    case Nil
    then show ?thesis by (auto split: sum.splits)
  next
    case (Cons out outs')
    have "(\<forall>i < Suc (length items). sanitize_item ((item # items) ! i) = Inr ((out # outs') ! i)) \<longleftrightarrow>
          sanitize_item item = Inr out \<and>
          (\<forall>i < length items. sanitize_item (items ! i) = Inr (outs' ! i))"
      by (auto simp: nth_Cons split: nat.splits)
    then show ?thesis
      using Cons.IH [of outs'] Cons by (auto split: sum.splits)
  qed
qed



declare sanitize_value.simps [simp del]


lemma sanitizeBlocks_map:
  "sanitizeBlocks blocks = Inr out \<longleftrightarrow>
   length out = length blocks \<and>
   (\<forall>i < length blocks. \<exists>b. sanitize_props (spread (blocks ! i)) = Inr b \<and> out ! i = JObj b)"
proof (induction blocks arbitrary: out)
  case Nil
  then show ?case by auto
next
  case (Cons block blocks)
  show ?case
  proof (cases out)
    case Nil
    then show ?thesis by (auto split: sum.splits)
  next
    case (Cons o1 out')
    have "(\<forall>i < Suc (length blocks).
             \<exists>b. sanitize_props (spread ((block # blocks) ! i)) = Inr b \<and> (o1 # out') ! i = JObj b) \<longleftrightarrow>
          (\<exists>b. sanitize_props (spread block) = Inr b \<and> o1 = JObj b) \<and>
          (\<forall>i < length blocks. \<exists>b. sanitize_props (spread (blocks ! i)) = Inr b \<and> out' ! i = JObj b)"
      by (auto simp: nth_Cons split: nat.splits)
    then show ?thesis
      using Cons.IH [of out'] Cons by (auto split: sum.splits)
  qed
qed

lemma sanitize_value_type: "sanitize_value ''type'' v = Inr v"
  by (simp add: sanitize_value.simps)

lemma sanitize_value_not_object:
  "(\<And>fs. v \<noteq> JObj fs) \<Longrightarrow> sanitize_value key v = Inr v"
  by (cases v) (auto simp: sanitize_value.simps)

lemma sanitize_value_object:
  assumes "key \<noteq> ''type''" and "sanitize_value key (JObj p) = Inr v'"
  shows "\<exists>p'. v' = JObj p' \<and>
     (case map_of p ''rich_text'' of
        Some (JArr rt) \<Rightarrow> \<exists>rt'. sanitizeRichText rt = Inr rt' \<and> map_of p' ''rich_text'' = Some (JArr rt')
      | other \<Rightarrow> map_of p' ''rich_text'' = other) \<and>
     (case map_of p ''children'' of
        Some (JArr ch) \<Rightarrow> \<exists>ch'. sanitizeBlocks ch = Inr ch' \<and> map_of p' ''children'' = Some (JArr ch')
      | other \<Rightarrow> map_of p' ''children'' = other) \<and>
     (\<forall>k. k \<noteq> ''rich_text'' \<and> k \<noteq> ''children'' \<longrightarrow> map_of p' k = map_of p k)"
  using assms
  by (auto simp: sanitize_value.simps update_conv' map_of_own_entries
      split: option.splits json.splits sum.splits)

lemma sanitize_props_lookup:
  "sanitize_props kvs = Inr out \<Longrightarrow> map_of kvs k = Some v \<Longrightarrow>
   \<exists>v'. map_of out k = Some v' \<and> sanitize_value k v = Inr v'"
proof (induction kvs arbitrary: out)
  case Nil
  then show ?case by simp
next
  case (Cons kv kvs)
  from Cons.prems(1) obtain v1 out1 where
    v1: "sanitize_value (fst kv) (snd kv) = Inr v1" and
    o1: "sanitize_props kvs = Inr out1" and
    out: "out = (fst kv, v1) # out1"
    by (auto split: sum.splits)
  show ?case
  proof (cases "fst kv = k")
    case True
    with Cons.prems(2) have "snd kv = v" by (cases kv) simp
    with True v1 out show ?thesis by simp
  next
    case False
    with Cons.prems(2) have "map_of kvs k = Some v" by (cases kv) simp
    from Cons.IH [OF o1 this] False out show ?thesis by simp
  qed
qed

lemma sanitizeBlocks_lookup:
  assumes "sanitizeBlocks blocks = Inr out" and "i < length blocks"
    and "blocks ! i = JObj bf" and "map_of bf key = Some v"
  shows "\<exists>v'. get_prop (out ! i) key = Some v' \<and> sanitize_value key v = Inr v'"
proof -
  from assms(1,2) obtain b where
    b: "sanitize_props (spread (blocks ! i)) = Inr b" and o: "out ! i = JObj b"
    unfolding sanitizeBlocks_map by blast
  from assms(3,4) have "map_of (spread (blocks ! i)) key = Some v"
    by (simp add: map_of_own_entries)
  from sanitize_props_lookup [OF b this] o show ?thesis by simp
qed


lemma sanitize_props_keys:
  "sanitize_props kvs = Inr out \<Longrightarrow> map fst out = map fst kvs"
  by (induction kvs arbitrary: out) (auto split: sum.splits)

lemma sanitizeBlocks_keys:
  assumes "sanitizeBlocks blocks = Inr out" and "i < length blocks"
  shows "\<exists>b. out ! i = JObj b \<and> map fst b = map fst (spread (blocks ! i))"
proof -
  from assms obtain b where
    b: "sanitize_props (spread (blocks ! i)) = Inr b" and o: "out ! i = JObj b"
    unfolding sanitizeBlocks_map by blast
  from sanitize_props_keys [OF b] o show ?thesis by blast
qed

lemma sanitizeBlocks_property:
  assumes sb: "sanitizeBlocks blocks = Inr out"
    and h: "i < length blocks" "blocks ! i = JObj bf" "map_of bf key = Some v"
  shows "\<exists>v'. get_prop (out ! i) key = Some v' \<and>
            (key = ''type'' \<or> (\<forall>p. v \<noteq> JObj p) \<longrightarrow> v' = v) \<and>
            (\<forall>p. key \<noteq> ''type'' \<and> v = JObj p \<longrightarrow>
               (\<exists>p'. v' = JObj p' \<and>
                  (case map_of p ''rich_text'' of
                     Some (JArr rt) \<Rightarrow>
                       \<exists>rt'. sanitizeRichText rt = Inr rt' \<and> map_of p' ''rich_text'' = Some (JArr rt')
                   | other \<Rightarrow> map_of p' ''rich_text'' = other) \<and>
                  (case map_of p ''children'' of
                     Some (JArr ch) \<Rightarrow>
                       \<exists>ch'. sanitizeBlocks ch = Inr ch' \<and> map_of p' ''children'' = Some (JArr ch')
                   | other \<Rightarrow> map_of p' ''children'' = other)))"
proof -
  from sanitizeBlocks_lookup [OF sb h] obtain v' where
    g: "get_prop (out ! i) key = Some v'" and sv: "sanitize_value key v = Inr v'"
    by blast
  have same: "v' = v" if "key = ''type'' \<or> (\<forall>p. v \<noteq> JObj p)"
  proof (cases "key = ''type''")
    case True
    with sv show ?thesis by (simp add: sanitize_value_type)
  next
    case False
    with that have "\<And>fs. v \<noteq> JObj fs" by blast
    from sanitize_value_not_object [OF this, of key] sv show ?thesis by simp
  qed
  have obj: "\<exists>p'. v' = JObj p' \<and>
                  (case map_of p ''rich_text'' of
                     Some (JArr rt) \<Rightarrow>
                       \<exists>rt'. sanitizeRichText rt = Inr rt' \<and> map_of p' ''rich_text'' = Some (JArr rt')
                   | other \<Rightarrow> map_of p' ''rich_text'' = other) \<and>
                  (case map_of p ''children'' of
                     Some (JArr ch) \<Rightarrow>
                       \<exists>ch'. sanitizeBlocks ch = Inr ch' \<and> map_of p' ''children'' = Some (JArr ch')
                   | other \<Rightarrow> map_of p' ''children'' = other)"
    if "key \<noteq> ''type'' \<and> v = JObj p" for p
    using sanitize_value_object [of key p v'] that sv by blast
  show ?thesis
    using g same obj by (intro exI [of _ v'] conjI impI allI)
qed

text \<open>
  Claim C10. An item whose type is \<^verbatim>\<open>text\<close> and whose \<^verbatim>\<open>text\<close> is there (and truthy) is
  rebuilt as an object with the two keys \<^verbatim>\<open>type\<close> and \<^verbatim>\<open>text\<close> only: the text holds the
  content (the empty string where it is absent or \<^verbatim>\<open>null\<close>, as it is when the text is
  not an object) and, where the link of the item has a valid URL, a link with that URL
  and nothing else; so every other field of the item, the annotations among them, is
  gone. An item that is not \<^verbatim>\<open>null\<close> and whose type is not \<^verbatim>\<open>text\<close> or that has no
  (truthy) \<^verbatim>\<open>text\<close> is returned as it is; on a \<^verbatim>\<open>null\<close> item the sanitation throws. A
  rich text is sanitized item by item. \<^verbatim>\<open>sanitizeBlocks\<close> returns one block for each block
  given, with the same keys in the same order; the \<^verbatim>\<open>type\<close> and every property that is
  not an object are as before, and a property of a block that is an object has its
  \<^verbatim>\<open>rich_text\<close> array sanitized and its \<^verbatim>\<open>children\<close> array replaced by the result of
  \<^verbatim>\<open>sanitizeBlocks\<close> on it (the same sanitation, one level down). These are the items
  that the sanitation rebuilds: the items of the \<^verbatim>\<open>rich_text\<close> arrays.
\<close>

theorem sanitation_rebuilds_text_items:
  "(\<forall>fs t. map_of fs ''type'' = Some (JStr ''text'') \<and> map_of fs ''text'' = Some t \<and>
           truthy (Some t) \<longrightarrow>
      sanitize_item (JObj fs) =
        Inr (JObj [(''type'', JStr ''text''),
                   (''text'',
                    JObj ((''content'',
                           (case get_prop t ''content'' of
                              None \<Rightarrow> JStr [] | Some JNull \<Rightarrow> JStr [] | Some c \<Rightarrow> c)) #
                          (case get_prop t ''link'' of
                             None \<Rightarrow> []
                           | Some l \<Rightarrow>
                               (case get_prop l ''url'' of
                                  None \<Rightarrow> []
                                | Some u \<Rightarrow>
                                    if isValidNotionUrl (Some u)
                                    then [(''link'', JObj [(''url'', u)])] else []))))])) \<and>
   (\<forall>item. item \<noteq> JNull \<and>
      (get_prop item ''type'' \<noteq> Some (JStr ''text'') \<or> \<not> truthy (get_prop item ''text'')) \<longrightarrow>
      sanitize_item item = Inr item) \<and>
   sanitize_item JNull = Inl TypeError \<and>
   (\<forall>items outs. sanitizeRichText items = Inr outs \<longleftrightarrow>
      length outs = length items \<and>
      (\<forall>i < length items. sanitize_item (items ! i) = Inr (outs ! i))) \<and>
   (\<forall>blocks out. sanitizeBlocks blocks = Inr out \<longrightarrow>
      length out = length blocks \<and>
      (\<forall>i < length blocks. \<exists>b. out ! i = JObj b \<and> map fst b = map fst (spread (blocks ! i))) \<and>
      (\<forall>i bf key v. i < length blocks \<and> blocks ! i = JObj bf \<and> map_of bf key = Some v \<longrightarrow>
         (\<exists>v'. get_prop (out ! i) key = Some v' \<and>
            (key = ''type'' \<or> (\<forall>p. v \<noteq> JObj p) \<longrightarrow> v' = v) \<and>
            (\<forall>p. key \<noteq> ''type'' \<and> v = JObj p \<longrightarrow>
               (\<exists>p'. v' = JObj p' \<and>
                  (case map_of p ''rich_text'' of
                     Some (JArr rt) \<Rightarrow>
                       \<exists>rt'. sanitizeRichText rt = Inr rt' \<and> map_of p' ''rich_text'' = Some (JArr rt')
                   | other \<Rightarrow> map_of p' ''rich_text'' = other) \<and>
                  (case map_of p ''children'' of
                     Some (JArr ch) \<Rightarrow>
                       \<exists>ch'. sanitizeBlocks ch = Inr ch' \<and> map_of p' ''children'' = Some (JArr ch')
                   | other \<Rightarrow> map_of p' ''children'' = other))))))"
proof (intro conjI allI impI)
  fix fs t
  assume "map_of fs ''type'' = Some (JStr ''text'') \<and> map_of fs ''text'' = Some t \<and>
           truthy (Some t)"
  then show "sanitize_item (JObj fs) =
        Inr (JObj [(''type'', JStr ''text''),
                   (''text'',
                    JObj ((''content'',
                           (case get_prop t ''content'' of
                              None \<Rightarrow> JStr [] | Some JNull \<Rightarrow> JStr [] | Some c \<Rightarrow> c)) #
                          (case get_prop t ''link'' of
                             None \<Rightarrow> []
                           | Some l \<Rightarrow>
                               (case get_prop l ''url'' of
                                  None \<Rightarrow> []
                                | Some u \<Rightarrow>
                                    if isValidNotionUrl (Some u)
                                    then [(''link'', JObj [(''url'', u)])] else []))))])"
    using sanitize_item_text by blast
next
  fix item
  assume "item \<noteq> JNull \<and>
      (get_prop item ''type'' \<noteq> Some (JStr ''text'') \<or> \<not> truthy (get_prop item ''text''))"
  then show "sanitize_item item = Inr item"
    using sanitize_item_pass by blast
next
  show "sanitize_item JNull = Inl TypeError"
    by (simp add: sanitize_item_def)
next
  fix items outs
  show "sanitizeRichText items = Inr outs \<longleftrightarrow>
      length outs = length items \<and>
      (\<forall>i < length items. sanitize_item (items ! i) = Inr (outs ! i))"
    by (rule sanitizeRichText_map)
next
  fix blocks out
  assume "sanitizeBlocks blocks = Inr out"
  then show "length out = length blocks"
    unfolding sanitizeBlocks_map by blast
next
  fix blocks out i
  assume "sanitizeBlocks blocks = Inr out" and "i < length blocks"
  then show "\<exists>b. out ! i = JObj b \<and> map fst b = map fst (spread (blocks ! i))"
    by (rule sanitizeBlocks_keys)
next
  fix blocks out i bf key v
  assume sb: "sanitizeBlocks blocks = Inr out"
    and h: "i < length blocks \<and> blocks ! i = JObj bf \<and> map_of bf key = Some v"
  from h have h1: "i < length blocks" and h2: "blocks ! i = JObj bf" and h3: "map_of bf key = Some v"
    by blast+
  show "\<exists>v'. get_prop (out ! i) key = Some v' \<and>
            (key = ''type'' \<or> (\<forall>p. v \<noteq> JObj p) \<longrightarrow> v' = v) \<and>
            (\<forall>p. key \<noteq> ''type'' \<and> v = JObj p \<longrightarrow>
               (\<exists>p'. v' = JObj p' \<and>
                  (case map_of p ''rich_text'' of
                     Some (JArr rt) \<Rightarrow>
                       \<exists>rt'. sanitizeRichText rt = Inr rt' \<and> map_of p' ''rich_text'' = Some (JArr rt')
                   | other \<Rightarrow> map_of p' ''rich_text'' = other) \<and>
                  (case map_of p ''children'' of
                     Some (JArr ch) \<Rightarrow>
                       \<exists>ch'. sanitizeBlocks ch = Inr ch' \<and> map_of p' ''children'' = Some (JArr ch')
                   | other \<Rightarrow> map_of p' ''children'' = other)))"
    using sb h1 h2 h3 by (rule sanitizeBlocks_property)
qed

text \<open>
  A bold text item with a \<^verbatim>\<open>javascript:\<close> link loses its annotations and its link and
  keeps its content; an item whose text is a string is rebuilt with the empty content; a
  mention passes; a paragraph with a nested quote is sanitized at both levels.
\<close>

theorem sanitation_rebuilds_text_items_witness:
  "sanitize_item
     (JObj [(''type'', JStr ''text''),
            (''annotations'', JObj [(''bold'', JBool True)]),
            (''text'', JObj [(''content'', JStr ''x''),
                             (''link'', JObj [(''url'', JStr ''javascript:alert(1)'')])])]) =
     Inr (JObj [(''type'', JStr ''text''), (''text'', JObj [(''content'', JStr ''x'')])]) \<and>
   sanitize_item (JObj [(''type'', JStr ''text''), (''text'', JStr ''x'')]) =
     Inr (JObj [(''type'', JStr ''text''), (''text'', JObj [(''content'', JStr [])])]) \<and>
   sanitize_item (JObj [(''type'', JStr ''mention''), (''mention'', JObj [])]) =
     Inr (JObj [(''type'', JStr ''mention''), (''mention'', JObj [])]) \<and>
   sanitizeBlocks
     [JObj [(''type'', JStr ''paragraph''),
            (''paragraph'',
             JObj [(''color'', JStr ''red''),
                   (''rich_text'',
                    JArr [JObj [(''type'', JStr ''text''),
                                (''annotations'', JObj [(''italic'', JBool True)]),
                                (''text'', JObj [(''content'', JStr ''y''),
                                                 (''link'', JObj [(''url'', JStr ''https://a.b'')])])]]),
                   (''children'',
                    JArr [JObj [(''type'', JStr ''quote''),
                                (''quote'',
                                 JObj [(''rich_text'',
                                        JArr [JObj [(''type'', JStr ''text''),
                                                    (''plain_text'', JStr ''z''),
                                                    (''text'', JObj [(''content'', JStr ''z'')])]])])]])])]] =
     Inr [JObj [(''type'', JStr ''paragraph''),
            (''paragraph'',
             JObj [(''color'', JStr ''red''),
                   (''rich_text'',
                    JArr [JObj [(''type'', JStr ''text''),
                                (''text'', JObj [(''content'', JStr ''y''),
                                                 (''link'', JObj [(''url'', JStr ''https://a.b'')])])]]),
                   (''children'',
                    JArr [JObj [(''type'', JStr ''quote''),
                                (''quote'',
                                 JObj [(''rich_text'',
                                        JArr [JObj [(''type'', JStr ''text''),
                                                    (''text'', JObj [(''content'', JStr ''z'')])]])])]])])]]"
proof -
  let ?tf = "JObj [(''content'', JStr ''x''), (''link'', JObj [(''url'', JStr ''javascript:alert(1)'')])]"
  let ?fs = "[(''type'', JStr ''text''), (''annotations'', JObj [(''bold'', JBool True)]),
              (''text'', ?tf)]"
  let ?gs = "[(''type'', JStr ''text''), (''text'', JStr ''x'')]"
  let ?m = "JObj [(''type'', JStr ''mention''), (''mention'', JObj [])]"
  have h1: "map_of ?fs ''type'' = Some (JStr ''text'') \<and> map_of ?fs ''text'' = Some ?tf \<and>
      truthy (Some ?tf)"
    by simp
  note t1 = sanitation_rebuilds_text_items [THEN conjunct1, THEN spec, THEN spec, THEN mp, OF h1]
  have v1: "Inr (JObj [(''type'', JStr ''text''),
                   (''text'',
                    JObj ((''content'',
                           (case get_prop ?tf ''content'' of
                              None \<Rightarrow> JStr [] | Some JNull \<Rightarrow> JStr [] | Some c \<Rightarrow> c)) #
                          (case get_prop ?tf ''link'' of
                             None \<Rightarrow> []
                           | Some l \<Rightarrow>
                               (case get_prop l ''url'' of
                                  None \<Rightarrow> []
                                | Some u \<Rightarrow>
                                    if isValidNotionUrl (Some u)
                                    then [(''link'', JObj [(''url'', u)])] else []))))]) =
        (Inr (JObj [(''type'', JStr ''text''), (''text'', JObj [(''content'', JStr ''x'')])])
          :: js_error + json)"
    by code_simp
  have p1: "sanitize_item (JObj ?fs) =
      Inr (JObj [(''type'', JStr ''text''), (''text'', JObj [(''content'', JStr ''x'')])])"
    using t1 v1 by (rule trans)
  have g1: "map_of ?gs ''type'' = Some (JStr ''text'') \<and> map_of ?gs ''text'' = Some (JStr ''x'') \<and>
      truthy (Some (JStr ''x''))"
    by simp
  note t2 = sanitation_rebuilds_text_items [THEN conjunct1, THEN spec, THEN spec, THEN mp, OF g1]
  have p1': "sanitize_item (JObj ?gs) =
      Inr (JObj [(''type'', JStr ''text''), (''text'', JObj [(''content'', JStr [])])])"
    using t2 by simp
  have h2: "?m \<noteq> JNull \<and>
      (get_prop ?m ''type'' \<noteq> Some (JStr ''text'') \<or> \<not> truthy (get_prop ?m ''text''))"
    by simp
  note p2 = sanitation_rebuilds_text_items
    [THEN conjunct2, THEN conjunct1, THEN spec, THEN mp, OF h2]
  have p3: "sanitizeBlocks
     [JObj [(''type'', JStr ''paragraph''),
            (''paragraph'',
             JObj [(''color'', JStr ''red''),
                   (''rich_text'',
                    JArr [JObj [(''type'', JStr ''text''),
                                (''annotations'', JObj [(''italic'', JBool True)]),
                                (''text'', JObj [(''content'', JStr ''y''),
                                                 (''link'', JObj [(''url'', JStr ''https://a.b'')])])]]),
                   (''children'',
                    JArr [JObj [(''type'', JStr ''quote''),
                                (''quote'',
                                 JObj [(''rich_text'',
                                        JArr [JObj [(''type'', JStr ''text''),
                                                    (''plain_text'', JStr ''z''),
                                                    (''text'', JObj [(''content'', JStr ''z'')])]])])]])])]] =
     Inr [JObj [(''type'', JStr ''paragraph''),
            (''paragraph'',
             JObj [(''color'', JStr ''red''),
                   (''rich_text'',
                    JArr [JObj [(''type'', JStr ''text''),
                                (''text'', JObj [(''content'', JStr ''y''),
                                                 (''link'', JObj [(''url'', JStr ''https://a.b'')])])]]),
                   (''children'',
                    JArr [JObj [(''type'', JStr ''quote''),
                                (''quote'',
                                 JObj [(''rich_text'',
                                        JArr [JObj [(''type'', JStr ''text''),
                                                    (''text'', JObj [(''content'', JStr ''z'')])]])])]])])]]"
    by code_simp
  show ?thesis
    by (intro conjI p1 p1' p2 p3)
qed

text \<open>
  The rich texts that a block holds elsewhere are not visited. The cells of a table row
  and the caption of an image come back as they are: their text items keep their
  annotations and a link that is not valid.
\<close>

theorem sanitation_rebuilds_text_items_counterexample:
  "sanitizeBlocks
     [JObj [(''type'', JStr ''table''),
            (''table'',
             JObj [(''table_width'', JNum 1),
                   (''children'',
                    JArr [JObj [(''type'', JStr ''table_row''),
                                (''table_row'',
                                 JObj [(''cells'',
                                        JArr [JArr [JObj [(''type'', JStr ''text''),
                                                          (''annotations'', JObj [(''bold'', JBool True)]),
                                                          (''text'',
                                                           JObj [(''content'', JStr ''x''),
                                                                 (''link'',
                                                                  JObj [(''url'', JStr ''javascript:alert(1)'')])])]]])])]])])],
      JObj [(''type'', JStr ''image''),
            (''image'',
             JObj [(''type'', JStr ''external''),
                   (''external'', JObj [(''url'', JStr ''https://a.b/c.png'')]),
                   (''caption'',
                    JArr [JObj [(''type'', JStr ''text''),
                                (''annotations'', JObj [(''italic'', JBool True)]),
                                (''text'', JObj [(''content'', JStr ''y'')])]])])]] =
   Inr
     [JObj [(''type'', JStr ''table''),
            (''table'',
             JObj [(''table_width'', JNum 1),
                   (''children'',
                    JArr [JObj [(''type'', JStr ''table_row''),
                                (''table_row'',
                                 JObj [(''cells'',
                                        JArr [JArr [JObj [(''type'', JStr ''text''),
                                                          (''annotations'', JObj [(''bold'', JBool True)]),
                                                          (''text'',
                                                           JObj [(''content'', JStr ''x''),
                                                                 (''link'',
                                                                  JObj [(''url'', JStr ''javascript:alert(1)'')])])]]])])]])])],
      JObj [(''type'', JStr ''image''),
            (''image'',
             JObj [(''type'', JStr ''external''),
                   (''external'', JObj [(''url'', JStr ''https://a.b/c.png'')]),
                   (''caption'',
                    JArr [JObj [(''type'', JStr ''text''),
                                (''annotations'', JObj [(''italic'', JBool True)]),
                                (''text'', JObj [(''content'', JStr ''y'')])]])])]]"
  by code_simp

section \<open>Conversion and its failures\<close>





























section \<open>Folder resolution\<close>

lemma ensureFolderPagesCache_loop_dom:
  "ensureFolderPagesCache_loop notion rootPageId ts c st = Some (Inr c1, st1) \<Longrightarrow>
   set ts \<subseteq> dom (map_of c1) \<and> dom (map_of c) \<subseteq> dom (map_of c1)"
proof (induction ts arbitrary: c st)
  case Nil
  then show ?case by simp
next
  case (Cons t ts)
  show ?case
  proof (cases "map_of c t")
    case (Some pageId)
    with Cons.prems have "ensureFolderPagesCache_loop notion rootPageId ts c st = Some (Inr c1, st1)"
      by simp
    from Cons.IH [OF this] Some show ?thesis by auto
  next
    case None
    with Cons.prems obtain pageId st2 where
      "getOrCreateFolderPage notion rootPageId t st = Some (Inr pageId, st2)" and
      r: "ensureFolderPagesCache_loop notion rootPageId ts (AList.update t pageId c) st2 =
          Some (Inr c1, st1)"
      by (auto split: option.splits sum.splits prod.splits)
    from Cons.IH [OF r] have
      a: "set ts \<subseteq> dom (map_of c1)" and
      b: "dom (map_of (AList.update t pageId c)) \<subseteq> dom (map_of c1)"
      by blast+
    have "dom (map_of (AList.update t pageId c)) = insert t (dom (map_of c))"
      by (simp add: update_conv')
    with a b show ?thesis by auto
  qed
qed

lemma ensureFolderPagesCache_loop_present:
  "set ts \<subseteq> dom (map_of c) \<Longrightarrow>
   ensureFolderPagesCache_loop notion rootPageId ts c st = Some (Inr c, st)"
  by (induction ts) auto

text \<open>
  Claim C9. When a run of \<^verbatim>\<open>ensureFolderPagesCache\<close> returns a cache, every title of
  the set is a key of that cache, and a second run with the same titles and that cache,
  from any state, returns the same cache and leaves the state as it was: it sends no
  call to the store, neither a lookup nor a creation.
\<close>

theorem ensureFolderPagesCache_idempotent:
  "ensureFolderPagesCache notion rootPageId folderTitles initialCache (st :: ('w, 'f) state) = Some (Inr cache1, st1) \<longrightarrow>
   set folderTitles \<subseteq> dom (map_of cache1) \<and>
   (\<forall>st2 :: ('w, 'f) state. ensureFolderPagesCache notion rootPageId folderTitles cache1 st2 = Some (Inr cache1, st2)) \<and>
   (\<exists>st3. ensureFolderPagesCache notion rootPageId folderTitles cache1 st1 = Some (Inr cache1, st3) \<and>
      calls st3 = calls st1 \<and> remote st3 = remote st1)"
proof
  assume "ensureFolderPagesCache notion rootPageId folderTitles initialCache st = Some (Inr cache1, st1)"
  then have "ensureFolderPagesCache_loop notion rootPageId folderTitles initialCache st =
      Some (Inr cache1, st1)"
    by (simp add: ensureFolderPagesCache_def)
  from ensureFolderPagesCache_loop_dom [OF this]
  have d: "set folderTitles \<subseteq> dom (map_of cache1)" by blast
  have s: "ensureFolderPagesCache notion rootPageId folderTitles cache1 st2 = Some (Inr cache1, st2)"
    for st2
    unfolding ensureFolderPagesCache_def
    using d by (rule ensureFolderPagesCache_loop_present)
  from d s show "set folderTitles \<subseteq> dom (map_of cache1) \<and>
   (\<forall>st2 :: ('w, 'f) state. ensureFolderPagesCache notion rootPageId folderTitles cache1 st2 = Some (Inr cache1, st2)) \<and>
   (\<exists>st3. ensureFolderPagesCache notion rootPageId folderTitles cache1 st1 = Some (Inr cache1, st3) \<and>
      calls st3 = calls st1 \<and> remote st3 = remote st1)"
    by blast
qed

text \<open>
  Two folders on the store in memory: the first run looks each title up and creates a
  page for it, the second run sends nothing.
\<close>

theorem ensureFolderPagesCache_idempotent_witness:
  "ensureFolderPagesCache memory_store ''root'' [''Guides'', ''Api''] []
     \<lparr>remote = [], calls = [], files = (), validatedPageIds = []\<rparr> =
     Some (Inr [(''Guides'', ''page-0''), (''Api'', ''page-1'')],
           \<lparr>remote = [''page-0'', ''page-1''],
            calls = [Blocks_children_list ''root'' None, Pages_create ''root'' ''Guides'' None,
                     Blocks_children_list ''root'' None, Pages_create ''root'' ''Api'' None],
            files = (), validatedPageIds = []\<rparr>) \<and>
   ensureFolderPagesCache memory_store ''root'' [''Guides'', ''Api'']
     [(''Guides'', ''page-0''), (''Api'', ''page-1'')]
     \<lparr>remote = [''page-0'', ''page-1''],
      calls = [Blocks_children_list ''root'' None, Pages_create ''root'' ''Guides'' None,
               Blocks_children_list ''root'' None, Pages_create ''root'' ''Api'' None],
      files = (), validatedPageIds = []\<rparr> =
     Some (Inr [(''Guides'', ''page-0''), (''Api'', ''page-1'')],
           \<lparr>remote = [''page-0'', ''page-1''],
            calls = [Blocks_children_list ''root'' None, Pages_create ''root'' ''Guides'' None,
                     Blocks_children_list ''root'' None, Pages_create ''root'' ''Api'' None],
            files = (), validatedPageIds = []\<rparr>)"
proof -
  have first: "ensureFolderPagesCache memory_store ''root'' [''Guides'', ''Api''] []
     \<lparr>remote = [], calls = [], files = (), validatedPageIds = []\<rparr> =
     Some (Inr [(''Guides'', ''page-0''), (''Api'', ''page-1'')],
           \<lparr>remote = [''page-0'', ''page-1''],
            calls = [Blocks_children_list ''root'' None, Pages_create ''root'' ''Guides'' None,
                     Blocks_children_list ''root'' None, Pages_create ''root'' ''Api'' None],
            files = (), validatedPageIds = []\<rparr>)"
    by code_simp
  note second = ensureFolderPagesCache_idempotent
    [THEN mp, OF first, THEN conjunct2, THEN conjunct1, THEN spec]
  show ?thesis
    by (intro conjI first second)
qed

section \<open>Change selection\<close>

text \<open>
  Claim C1. A push that changes no document, with both references given, in the mode
  \<^verbatim>\<open>changed\<close>: \<^verbatim>\<open>getChangedMdPaths\<close> has returned the empty list, and the directory
  holds \<^verbatim>\<open>a.md\<close>, which has no header and so no identifier. \<^verbatim>\<open>run\<close> returns before it
  calls \<^verbatim>\<open>runSync\<close>: the run goes through no document. \<^verbatim>\<open>runSync\<close> itself, called with
  the empty list, would go through \<^verbatim>\<open>a.md\<close>, as \<^verbatim>\<open>run\<close> does when the list is not
  empty: with \<^verbatim>\<open>b.md\<close> changed, both documents are in the run.
\<close>

theorem run_skips_first_sync_documents:
  "run_working_set 2 memory_fs [(''/w/docs/a.md'', ''# A'')] ''/w/docs''
     mode_changed ''abc'' ''def'' (Some []) = Some (Inr []) \<and>
   runSync_mdFiles 2 memory_fs [(''/w/docs/a.md'', ''# A'')] ''/w/docs'' (Some []) =
     Some (Inr [''a.md'']) \<and>
   run_working_set 2 memory_fs
     [(''/w/docs/a.md'', ''# A''),
      (''/w/docs/b.md'', ''---'' @ [LF] @ ''notion_page_id: p1'' @ [LF] @ ''---'' @ [LF] @ ''B'')]
     ''/w/docs'' mode_changed ''abc'' ''def'' (Some [''b.md'']) = Some (Inr [''a.md'', ''b.md''])"
  by code_simp

end
